theory Spec2Isabelle
  imports
    Complex_Main
    "HOL-Library.Word"
    "HOL-Library.Multiset"
    "HOL-Library.AList"
    "HOL-Library.List_Lexorder"
    "HOL-Library.Char_ord"
begin

section \<open>JavaScript numbers\<close>

text \<open>
  A JavaScript Number is an IEEE 754 double.  A finite one is held as the decimal
  \<open>s * 10 ^ p\<close> that \<open>Number::toString\<close> prints for it: the decimal with the
  fewest digits that reads back as the same double and, among these, the closest to it.
  \<open>Number_value s p\<close> is the Number that the decimal \<open>s * 10 ^ p\<close> denotes in a
  source or JSON text: the nearest double, ties to the even mantissa, \<open>Infinity\<close> from
  \<open>2 ^ 1024 - 2 ^ 970\<close> on.  The zeros are not told apart (\<open>-0\<close> prints as
  \<open>0\<close>).
\<close>

datatype number = Decimal int int | PosInfinity | NegInfinity

text \<open>\<open>b ^ k\<close> for an integer \<open>k\<close>, 1 when \<open>k\<close> is negative.\<close>

function ipow :: "int \<Rightarrow> int \<Rightarrow> int" where
  "ipow b k = (if k \<le> 0 then 1 else b * ipow b (k - 1))"
  by pat_completeness auto
termination
  by (relation "measure (\<lambda>(b, k). nat k)") auto

declare ipow.simps [simp del]

definition scale :: "int \<Rightarrow> int \<Rightarrow> int \<Rightarrow> int" where
  "scale b x k = x * ipow b k"

text \<open>The number of digits of \<open>n\<close> in base \<open>b\<close>, 0 for \<open>n \<le> 0\<close>.\<close>

function digits_in :: "int \<Rightarrow> int \<Rightarrow> int" where
  "digits_in b n = (if n \<le> 0 \<or> b \<le> 1 then 0 else 1 + digits_in b (n div b))"
  by pat_completeness auto
termination
  by (relation "measure (\<lambda>(b, n). nat n)") (auto intro: int_div_less_self)

declare digits_in.simps [simp del]

text \<open>
  \<open>magnitude b x y\<close> is the integer \<open>e\<close> with \<open>b ^ e \<le> x / y < b ^ (e + 1)\<close>,
  for positive \<open>x\<close> and \<open>y\<close>.
\<close>

definition magnitude :: "int \<Rightarrow> int \<Rightarrow> int \<Rightarrow> int" where
  "magnitude b x y =
     (let d = digits_in b x - digits_in b y in
      if scale b y d \<le> scale b x (- d) then d else d - 1)"

text \<open>
  The double nearest to \<open>x / y\<close> (both positive), as a mantissa \<open>m \<le> 2 ^ 53\<close> and an
  exponent \<open>e \<ge> -1074\<close> with value \<open>m * 2 ^ e\<close>; \<open>None\<close> when the value is
  \<open>2 ^ 1024\<close> or more.
\<close>

definition nearest_double :: "int \<Rightarrow> int \<Rightarrow> (int \<times> int) option" where
  "nearest_double x y =
     (let e = max (magnitude 2 x y - 52) (- 1074);
          num = scale 2 x (- e);
          den = scale 2 y e;
          q = num div den;
          r = num mod den;
          m = (if den < 2 * r \<or> (2 * r = den \<and> odd q) then q + 1 else q)
      in if 971 < e \<or> (e = 971 \<and> 9007199254740992 \<le> m) then None else Some (m, e))"

definition same_double :: "(int \<times> int) option \<Rightarrow> int \<times> int \<Rightarrow> bool" where
  "same_double r d =
     (case r of
        None \<Rightarrow> False
      | Some (m, e) \<Rightarrow> scale 2 m (e - snd d) = scale 2 (fst d) (snd d - e))"

text \<open>
  The digits of the positive double \<open>d = (m, e)\<close>.  With \<open>10 ^ (n - 1) \<le> d < 10 ^ n\<close>,
  the candidates with \<open>k\<close> digits are the two multiples of \<open>10 ^ (n - k)\<close> around
  \<open>d\<close>; the first \<open>k\<close> that has a candidate reading back as \<open>d\<close> is taken, and the
  closer candidate, the even one on a tie; seventeen digits always read back.
\<close>

definition candidate :: "int \<times> int \<Rightarrow> int \<Rightarrow> int \<Rightarrow> (int \<times> int) option" where
  "candidate d n k =
     (let x = scale 2 (fst d) (snd d);
          y = scale 2 1 (- snd d);
          num = scale 10 x (k - n);
          den = scale 10 y (n - k);
          lo = num div den;
          hi = lo + 1;
          reads = (\<lambda>s. same_double (nearest_double (scale 10 s (n - k)) (scale 10 1 (k - n))) d);
          lo_closer = (2 * num < (2 * lo + 1) * den \<or> (2 * num = (2 * lo + 1) * den \<and> even lo));
          best = (if lo_closer then lo else hi);
          other = (if lo_closer then hi else lo)
      in if reads best \<or> 17 \<le> k then Some (best, n - k)
         else if reads other then Some (other, n - k)
         else None)"

function shortest_from :: "int \<times> int \<Rightarrow> int \<Rightarrow> int \<Rightarrow> int \<times> int" where
  "shortest_from d n k =
     (case candidate d n k of
        Some r \<Rightarrow> r
      | None \<Rightarrow> shortest_from d n (k + 1))"
  by pat_completeness auto
termination
proof (relation "measure (\<lambda>(d, n, k). nat (17 - k))")
  show "wf (measure (\<lambda>(d, n, k). nat (17 - k)))" by simp
next
  fix d :: "int \<times> int" and n k :: int
  assume "candidate d n k = None"
  then have "\<not> 17 \<le> k"
    by (auto simp: candidate_def Let_def split: if_splits)
  then show "((d, n, k + 1), (d, n, k)) \<in> measure (\<lambda>(d, n, k). nat (17 - k))" by simp
qed

declare shortest_from.simps [simp del]

text \<open>A decimal without trailing zeros in its digits.\<close>

function strip_zeros :: "int \<Rightarrow> int \<Rightarrow> int \<times> int" where
  "strip_zeros s p = (if s \<noteq> 0 \<and> s mod 10 = 0 then strip_zeros (s div 10) (p + 1) else (s, p))"
  by pat_completeness auto
termination
  by (relation "measure (\<lambda>(s, p). nat \<bar>s\<bar>)") auto

declare strip_zeros.simps [simp del]

definition shortest_decimal :: "int \<times> int \<Rightarrow> int \<times> int" where
  "shortest_decimal d =
     (let x = scale 2 (fst d) (snd d);
          y = scale 2 1 (- snd d);
          n = magnitude 10 x y + 1
      in case shortest_from d n 1 of (s, p) \<Rightarrow> strip_zeros s p)"

definition Number_value :: "int \<Rightarrow> int \<Rightarrow> number" where
  "Number_value s p =
     (if s = 0 then Decimal 0 0
      else
        (case nearest_double (scale 10 \<bar>s\<bar> p) (scale 10 1 (- p)) of
           None \<Rightarrow> if 0 < s then PosInfinity else NegInfinity
         | Some d \<Rightarrow>
             if fst d = 0 then Decimal 0 0
             else (case shortest_decimal d of (t, q) \<Rightarrow> Decimal (sgn s * t) q)))"

text \<open>The Number of an integer, as \<open>Date.now()\<close> or a database column gives it.\<close>

definition Number :: "int \<Rightarrow> number" where
  "Number n = Number_value n 0"

text \<open>The Numbers: the finite values that \<open>Number_value\<close> yields.\<close>

fun is_number :: "number \<Rightarrow> bool" where
  "is_number (Decimal s p) = (Number_value s p = Decimal s p)"
| "is_number n = False"

subsection \<open>Printing a number: \<open>Number::toString\<close>\<close>

definition digit_char :: "int \<Rightarrow> char" where
  "digit_char d = char_of (48 + d)"

text \<open>The decimal digits of an integer that is not negative.\<close>

function decimal :: "int \<Rightarrow> string" where
  "decimal n = (if n < 10 then [digit_char n] else decimal (n div 10) @ [digit_char (n mod 10)])"
  by pat_completeness auto
termination
  by (relation "measure nat") auto

declare decimal.simps [simp del]

definition string_of_nat :: "nat \<Rightarrow> string" where
  "string_of_nat n = decimal (int n)"

text \<open>
  With \<open>k\<close> digits and the decimal point after the \<open>n\<close>-th: the digits and zeros for
  \<open>k \<le> n \<le> 21\<close>, a point inside the digits for \<open>0 < n \<le> 21\<close>, \<open>0.\<close>, zeros and
  the digits for \<open>-6 < n \<le> 0\<close>, and the exponent form otherwise.
\<close>

definition exponent_text :: "int \<Rightarrow> string" where
  "exponent_text e = (if e < 0 then CHR ''-'' # decimal (- e) else CHR ''+'' # decimal e)"

definition unsigned_text :: "int \<Rightarrow> int \<Rightarrow> string" where
  "unsigned_text s p =
     (let ds = decimal s; k = int (length ds); n = p + k in
      if k \<le> n \<and> n \<le> 21 then ds @ replicate (nat (n - k)) (CHR ''0'')
      else if 0 < n \<and> n \<le> 21 then take (nat n) ds @ CHR ''.'' # drop (nat n) ds
      else if - 6 < n \<and> n \<le> 0 then ''0.'' @ replicate (nat (- n)) (CHR ''0'') @ ds
      else if k = 1 then ds @ CHR ''e'' # exponent_text (n - 1)
      else hd ds # CHR ''.'' # tl ds @ CHR ''e'' # exponent_text (n - 1))"

fun Number_toString :: "number \<Rightarrow> string" where
  "Number_toString (Decimal s p) =
     (if s = 0 then ''0''
      else if s < 0 then CHR ''-'' # unsigned_text (- s) p
      else unsigned_text s p)"
| "Number_toString PosInfinity = ''Infinity''"
| "Number_toString NegInfinity = ''-Infinity''"

section \<open>JSON values and JavaScript objects\<close>

text \<open>
  The payloads of synapse-relay are open JSON objects (\<open>Record<string, unknown>\<close>).
  A JSON value is modelled as a datatype; a \<open>string\<close> holds the UTF-8 bytes of the
  JavaScript string.  \<open>JBuiltin f\<close> is the built-in function \<open>f\<close>, the one value
  here that is no JSON data: a payload comes to hold one when \<open>applyTransform\<close> renames
  from a name that the object inherits from \<open>Object.prototype\<close>.  An object is the list
  of its own properties in the order in which JavaScript lists them (\<open>Object.entries\<close>,
  \<open>JSON.stringify\<close>, the spread): the keys that are array indices first, in ascending
  numeric order, then the other keys in the order of their creation.
\<close>

datatype json =
    JNull
  | JBool bool
  | JNum number
  | JStr string
  | JArr "json list"
  | JObj "(string \<times> json) list"
  | JBuiltin string

type_synonym jsobject = "(string \<times> json) list"

definition obj_get :: "jsobject \<Rightarrow> string \<Rightarrow> json option" where
  "obj_get obj k = map_of obj k"

definition obj_has :: "jsobject \<Rightarrow> string \<Rightarrow> bool" where
  "obj_has obj k = (k \<in> fst ` set obj)"

definition is_digit :: "char \<Rightarrow> bool" where
  "is_digit c = (48 \<le> (of_char c :: int) \<and> (of_char c :: int) \<le> 57)"

definition digit_val :: "char \<Rightarrow> int" where
  "digit_val c = of_char c - 48"

definition int_of_digits :: "string \<Rightarrow> int" where
  "int_of_digits ds = foldl (\<lambda>acc c. 10 * acc + digit_val c) 0 ds"

text \<open>
  An array index: the canonical decimal string of an integer from 0 to \<open>2 ^ 32 - 2\<close>.
\<close>

definition is_array_index :: "string \<Rightarrow> bool" where
  "is_array_index k =
     (k \<noteq> [] \<and> list_all is_digit k \<and> (hd k = CHR ''0'' \<longrightarrow> length k = 1) \<and>
      int_of_digits k \<le> 4294967294)"

text \<open>
  \<open>key_before a b\<close>: nothing forbids listing key \<open>a\<close> before key \<open>b\<close>, that is,
  \<open>b\<close> is no array index, or \<open>a\<close> is a smaller one.
\<close>

definition key_before :: "string \<Rightarrow> string \<Rightarrow> bool" where
  "key_before a b =
     (is_array_index b \<longrightarrow> is_array_index a \<and> int_of_digits a < int_of_digits b)"

text \<open>
  Creating or overwriting an own property (\<open>CreateDataProperty\<close>): a present key keeps
  its place, a new array index goes behind the smaller indices, any other new key to the
  end.
\<close>

fun obj_insert :: "string \<Rightarrow> json \<Rightarrow> jsobject \<Rightarrow> jsobject" where
  "obj_insert k v [] = [(k, v)]"
| "obj_insert k v (m # ms) =
     (if key_before (fst m) k then m # obj_insert k v ms else (k, v) # m # ms)"

definition obj_set :: "string \<Rightarrow> json \<Rightarrow> jsobject \<Rightarrow> jsobject" where
  "obj_set k v obj = (if obj_has obj k then AList.update k v obj else obj_insert k v obj)"

text \<open>The lists that are JavaScript objects.\<close>

definition js_ordered :: "jsobject \<Rightarrow> bool" where
  "js_ordered obj = (distinct (map fst obj) \<and> sorted_wrt key_before (map fst obj))"

text \<open>JavaScript truthiness of a property read (\<open>None\<close> is \<open>undefined\<close>).\<close>

fun truthy :: "json option \<Rightarrow> bool" where
  "truthy None = False"
| "truthy (Some JNull) = False"
| "truthy (Some (JBool b)) = b"
| "truthy (Some (JNum n)) = (case n of Decimal s p \<Rightarrow> s \<noteq> 0 | _ \<Rightarrow> True)"
| "truthy (Some (JStr s)) = (s \<noteq> [])"
| "truthy (Some (JArr xs)) = True"
| "truthy (Some (JObj ms)) = True"
| "truthy (Some (JBuiltin f)) = True"

text \<open>The object spread \<open>{ ...a, ...b }\<close>: the entries of \<open>b\<close> are defined in order.\<close>

definition obj_spread :: "jsobject \<Rightarrow> jsobject \<Rightarrow> jsobject" where
  "obj_spread a b = foldl (\<lambda>acc kv. obj_set (fst kv) (snd kv) acc) a b"

subsection \<open>Printing: \<open>JSON.stringify\<close>\<close>

definition hex_char :: "nat \<Rightarrow> char" where
  "hex_char d = (if d < 10 then char_of (48 + d) else char_of (87 + d))"

definition dquote :: char where
  "dquote = CHR 0x22"

definition backslash :: char where
  "backslash = CHR 0x5C"

text \<open>
  A character inside a string literal: the quote and the backslash are escaped, a control
  character below 0x20 gets its short escape or \<open>\u00xx\<close> in lower-case hex, every
  other byte stands for itself.
\<close>

definition escape_char :: "char \<Rightarrow> string" where
  "escape_char c =
     (if c = dquote then [backslash, dquote]
      else if c = backslash then [backslash, backslash]
      else if (of_char c :: nat) < 32 then
        (if c = CHR 0x08 then [backslash, CHR ''b'']
         else if c = CHR 0x09 then [backslash, CHR ''t'']
         else if c = CHR 0x0A then [backslash, CHR ''n'']
         else if c = CHR 0x0C then [backslash, CHR ''f'']
         else if c = CHR 0x0D then [backslash, CHR ''r'']
         else [backslash, CHR ''u'', CHR ''0'', CHR ''0'',
               hex_char (of_char c div 16), hex_char (of_char c mod 16)])
      else [c])"

definition string_literal :: "string \<Rightarrow> string" where
  "string_literal s = dquote # concat (map escape_char s) @ [dquote]"

fun commas :: "string list \<Rightarrow> string" where
  "commas [] = []"
| "commas [x] = x"
| "commas (x # y # ys) = x @ CHR '','' # commas (y # ys)"

fun is_builtin :: "json \<Rightarrow> bool" where
  "is_builtin (JBuiltin f) = True"
| "is_builtin v = False"

text \<open>
  A number that is not finite is printed as \<open>null\<close>, and so is a function that is an
  element of an array; a property that holds a function is left out.
\<close>

fun JSON_stringify :: "json \<Rightarrow> string" where
  "JSON_stringify JNull = ''null''"
| "JSON_stringify (JBool b) = (if b then ''true'' else ''false'')"
| "JSON_stringify (JNum n) = (case n of Decimal s p \<Rightarrow> Number_toString n | _ \<Rightarrow> ''null'')"
| "JSON_stringify (JStr s) = string_literal s"
| "JSON_stringify (JArr vs) = CHR ''['' # commas (map JSON_stringify vs) @ '']''"
| "JSON_stringify (JObj ms) =
     CHR ''{'' #
     commas (concat (map (\<lambda>m. if is_builtin (snd m) then []
                              else [string_literal (fst m) @ CHR '':'' # JSON_stringify (snd m)]) ms))
     @ ''}''"
| "JSON_stringify (JBuiltin f) = ''null''"

subsection \<open>Reading: \<open>JSON.parse\<close>\<close>

definition is_ws :: "char \<Rightarrow> bool" where
  "is_ws c = (c = CHR '' '' \<or> c = CHR 0x09 \<or> c = CHR 0x0A \<or> c = CHR 0x0D)"

definition skip_ws :: "string \<Rightarrow> string" where
  "skip_ws cs = dropWhile is_ws cs"

definition hex_val :: "char \<Rightarrow> nat option" where
  "hex_val c =
     (let n = (of_char c :: nat) in
      if 48 \<le> n \<and> n \<le> 57 then Some (n - 48)
      else if 97 \<le> n \<and> n \<le> 102 then Some (n - 87)
      else if 65 \<le> n \<and> n \<le> 70 then Some (n - 55)
      else None)"

text \<open>
  A number token: an optional minus sign, an integer part without a leading zero, an
  optional fraction and an optional exponent.  Each part is the longest run of digits;
  what follows the token is left to the caller.
\<close>

definition parse_fraction :: "string \<Rightarrow> (string \<times> string) option" where
  "parse_fraction cs =
     (case cs of
        c # r \<Rightarrow>
          if c = CHR ''.'' then
            (if takeWhile is_digit r = [] then None
             else Some (takeWhile is_digit r, dropWhile is_digit r))
          else Some ([], cs)
      | [] \<Rightarrow> Some ([], cs))"

definition parse_digits :: "string \<Rightarrow> (int \<times> string) option" where
  "parse_digits cs =
     (if takeWhile is_digit cs = [] then None
      else Some (int_of_digits (takeWhile is_digit cs), dropWhile is_digit cs))"

definition parse_exponent :: "string \<Rightarrow> (int \<times> string) option" where
  "parse_exponent cs =
     (case cs of
        c # r \<Rightarrow>
          if c = CHR ''e'' \<or> c = CHR ''E'' then
            (case r of
               d # r' \<Rightarrow>
                 if d = CHR ''-'' then map_option (\<lambda>(n, t). (- n, t)) (parse_digits r')
                 else if d = CHR ''+'' then parse_digits r'
                 else parse_digits r
             | [] \<Rightarrow> None)
          else Some (0, cs)
      | [] \<Rightarrow> Some (0, cs))"

definition parse_unsigned :: "string \<Rightarrow> ((int \<times> int) \<times> string) option" where
  "parse_unsigned cs =
     (let ip = takeWhile is_digit cs in
      if ip = [] then None
      else if 1 < length ip \<and> hd ip = CHR ''0'' then None
      else
        (case parse_fraction (dropWhile is_digit cs) of
           None \<Rightarrow> None
         | Some (fp, r) \<Rightarrow>
             (case parse_exponent r of
                None \<Rightarrow> None
              | Some (ex, r') \<Rightarrow> Some ((int_of_digits (ip @ fp), ex - int (length fp)), r'))))"

definition parse_number :: "string \<Rightarrow> (json \<times> string) option" where
  "parse_number cs =
     (case cs of
        [] \<Rightarrow> None
      | c # r \<Rightarrow>
          if c = CHR ''-'' then
            map_option (\<lambda>((s, p), r'). (JNum (Number_value (- s) p), r')) (parse_unsigned r)
          else map_option (\<lambda>((s, p), r'). (JNum (Number_value s p), r')) (parse_unsigned cs))"

text \<open>
  The UTF-8 bytes of a code point.
\<close>

definition utf8_encode :: "nat \<Rightarrow> string" where
  "utf8_encode cp =
     (if cp < 0x80 then [char_of cp]
      else if cp < 0x800 then [char_of (0xC0 + cp div 64), char_of (0x80 + cp mod 64)]
      else if cp < 0x10000 then
        [char_of (0xE0 + cp div 4096), char_of (0x80 + cp div 64 mod 64),
         char_of (0x80 + cp mod 64)]
      else
        [char_of (0xF0 + cp div 262144), char_of (0x80 + cp div 4096 mod 64),
         char_of (0x80 + cp div 64 mod 64), char_of (0x80 + cp mod 64)])"

text \<open>The four hex digits of an escape \<open>\uxxxx\<close>, as a UTF-16 code unit.\<close>

definition hex4 :: "char \<Rightarrow> char \<Rightarrow> char \<Rightarrow> char \<Rightarrow> nat option" where
  "hex4 h1 h2 h3 h4 =
     (case (hex_val h1, hex_val h2, hex_val h3, hex_val h4) of
        (Some a, Some b, Some c, Some d) \<Rightarrow> Some (4096 * a + 256 * b + 16 * c + d)
      | _ \<Rightarrow> None)"

text \<open>
  The body of a string literal, after the opening quote, up to and including the
  closing quote.  An escape \<open>\uxxxx\<close> stands for the UTF-8 bytes of its code point,
  a high surrogate followed by the escape of a low one for the code point of the pair.
  The escape of a surrogate alone, which UTF-8 has no bytes for, is not read.
\<close>

fun parse_string_body :: "string \<Rightarrow> (string \<times> string) option" where
  "parse_string_body [] = None"
| "parse_string_body (c # cs) =
     (if c = dquote then Some ([], cs)
      else if c = backslash then
        (case cs of
           [] \<Rightarrow> None
         | e # r \<Rightarrow>
             if e = CHR ''u'' then
               (case r of
                  h1 # h2 # h3 # h4 # r' \<Rightarrow>
                    (case hex4 h1 h2 h3 h4 of
                       None \<Rightarrow> None
                     | Some u \<Rightarrow>
                         if u < 0xD800 \<or> 0xE000 \<le> u then
                           map_option (\<lambda>(s, r''). (utf8_encode u @ s, r''))
                             (parse_string_body r')
                         else if 0xDC00 \<le> u then None
                         else
                           (case r' of
                              b # v # l1 # l2 # l3 # l4 # r2 \<Rightarrow>
                                if b = backslash \<and> v = CHR ''u'' then
                                  (case hex4 l1 l2 l3 l4 of
                                     None \<Rightarrow> None
                                   | Some l \<Rightarrow>
                                       if 0xDC00 \<le> l \<and> l < 0xE000 then
                                         map_option
                                           (\<lambda>(s, r''). (utf8_encode (0x10000 + (u - 0xD800) * 1024 + (l - 0xDC00)) @ s, r''))
                                           (parse_string_body r2)
                                       else None)
                                else None
                            | _ \<Rightarrow> None))
                | _ \<Rightarrow> None)
             else
               (case (if e = dquote then Some dquote
                      else if e = backslash then Some backslash
                      else if e = CHR ''/'' then Some (CHR ''/'')
                      else if e = CHR ''b'' then Some (CHR 0x08)
                      else if e = CHR ''t'' then Some (CHR 0x09)
                      else if e = CHR ''n'' then Some (CHR 0x0A)
                      else if e = CHR ''f'' then Some (CHR 0x0C)
                      else if e = CHR ''r'' then Some (CHR 0x0D)
                      else None) of
                  None \<Rightarrow> None
                | Some x \<Rightarrow> map_option (\<lambda>(s, r'). (x # s, r')) (parse_string_body r)))
      else if (of_char c :: nat) < 32 then None
      else map_option (\<lambda>(s, r). (c # s, r)) (parse_string_body cs))"

text \<open>
  The recursive-descent reader.  The first argument bounds the number of nested calls;
  \<open>JSON_parse\<close> starts it above the length of the text, which is always enough
  (see \<open>JSON_parse_stringify\<close>).  A repeated key of an object keeps its first
  position and takes its last value.
\<close>

fun parse_value :: "nat \<Rightarrow> string \<Rightarrow> (json \<times> string) option"
  and parse_elements :: "nat \<Rightarrow> string \<Rightarrow> (json list \<times> string) option"
  and parse_members :: "nat \<Rightarrow> string \<Rightarrow> (jsobject \<times> string) option"
where
  "parse_value 0 cs = None"
| "parse_value (Suc n) cs =
     (case skip_ws cs of
        [] \<Rightarrow> None
      | c # r \<Rightarrow>
          if c = CHR ''n'' then (if take 3 r = ''ull'' then Some (JNull, drop 3 r) else None)
          else if c = CHR ''t'' then (if take 3 r = ''rue'' then Some (JBool True, drop 3 r) else None)
          else if c = CHR ''f'' then (if take 4 r = ''alse'' then Some (JBool False, drop 4 r) else None)
          else if c = dquote then map_option (\<lambda>(s, r'). (JStr s, r')) (parse_string_body r)
          else if c = CHR ''['' then
            (case skip_ws r of
               [] \<Rightarrow> None
             | d # r' \<Rightarrow>
                 if d = CHR '']'' then Some (JArr [], r')
                 else map_option (\<lambda>(vs, r''). (JArr vs, r'')) (parse_elements n r))
          else if c = CHR ''{'' then
            (case skip_ws r of
               [] \<Rightarrow> None
             | d # r' \<Rightarrow>
                 if d = CHR ''}'' then Some (JObj [], r')
                 else map_option (\<lambda>(ms, r''). (JObj (obj_spread [] ms), r'')) (parse_members n r))
          else parse_number (c # r))"
| "parse_elements 0 cs = None"
| "parse_elements (Suc n) cs =
     (case parse_value n cs of
        None \<Rightarrow> None
      | Some (v, r) \<Rightarrow>
          (case skip_ws r of
             [] \<Rightarrow> None
           | d # r' \<Rightarrow>
               if d = CHR '','' then map_option (\<lambda>(vs, r''). (v # vs, r'')) (parse_elements n r')
               else if d = CHR '']'' then Some ([v], r')
               else None))"
| "parse_members 0 cs = None"
| "parse_members (Suc n) cs =
     (case skip_ws cs of
        [] \<Rightarrow> None
      | q # r \<Rightarrow>
          if q \<noteq> dquote then None
          else
            (case parse_string_body r of
               None \<Rightarrow> None
             | Some (k, r1) \<Rightarrow>
                 (case skip_ws r1 of
                    [] \<Rightarrow> None
                  | c # r2 \<Rightarrow>
                      if c \<noteq> CHR '':'' then None
                      else
                        (case parse_value n r2 of
                           None \<Rightarrow> None
                         | Some (v, r3) \<Rightarrow>
                             (case skip_ws r3 of
                                [] \<Rightarrow> None
                              | d # r4 \<Rightarrow>
                                  if d = CHR '','' then
                                    map_option (\<lambda>(ms, r5). ((k, v) # ms, r5)) (parse_members n r4)
                                  else if d = CHR ''}'' then Some ([(k, v)], r4)
                                  else None)))))"

definition JSON_parse :: "string \<Rightarrow> json option" where
  "JSON_parse s =
     (case parse_value (length s + 1) s of
        None \<Rightarrow> None
      | Some (v, r) \<Rightarrow> if skip_ws r = [] then Some v else None)"

text \<open>
  The JSON data: the values that \<open>JSON.parse\<close> returns for the text that
  \<open>JSON.stringify\<close> prints for them.  Every number is a finite Number, and every
  object, at any depth, lists its keys as JavaScript does.
\<close>

fun wf_json :: "json \<Rightarrow> bool" where
  "wf_json (JNum n) = is_number n"
| "wf_json (JArr vs) = (\<forall>v \<in> set vs. wf_json v)"
| "wf_json (JObj ms) = (js_ordered ms \<and> (\<forall>m \<in> set ms. wf_json (snd m)))"
| "wf_json (JBuiltin f) = False"
| "wf_json v = True"

section \<open>The wire codec (interlock/protocol.js)\<close>

text \<open>
  A \<open>Buffer\<close> is a list of bytes.  A JavaScript string is held as its UTF-8 bytes, so
  \<open>Buffer.from(s, 'utf8')\<close> and \<open>buf.toString('utf8')\<close> go byte by byte (the
  replacement of ill-formed UTF-8 by U+FFFD on decoding is not modelled).  Node's
  \<open>writeUInt16BE\<close> and \<open>writeUInt32BE\<close> throw a RangeError outside the range of
  the field; the readers throw one when the buffer is too short.
\<close>

type_synonym byte = "8 word"

text \<open>
  The exceptions; \<open>NotModelled\<close> is none of the program: it ends a run that leaves the
  values held in this model (see \<open>transform_step\<close> and \<open>Object_entries\<close>).
\<close>

datatype error = RangeError | SyntaxError | TypeError | ConstraintError | NotModelled

definition utf8_bytes :: "string \<Rightarrow> byte list" where
  "utf8_bytes s = map (\<lambda>c. word_of_nat (of_char c)) s"

definition utf8_string :: "byte list \<Rightarrow> string" where
  "utf8_string bs = map (\<lambda>b. char_of (unat b)) bs"

definition writeUInt16BE :: "int \<Rightarrow> error + byte list" where
  "writeUInt16BE v =
     (if 0 \<le> v \<and> v \<le> 65535 then Inr [word_of_int (v div 256), word_of_int v]
      else Inl RangeError)"

definition writeUInt32BE :: "int \<Rightarrow> error + byte list" where
  "writeUInt32BE v =
     (if 0 \<le> v \<and> v \<le> 4294967295 then
        Inr [word_of_int (v div 16777216), word_of_int (v div 65536),
             word_of_int (v div 256), word_of_int v]
      else Inl RangeError)"

definition readUInt16BE :: "byte list \<Rightarrow> nat \<Rightarrow> error + int" where
  "readUInt16BE buf off =
     (if off + 2 \<le> length buf then Inr (uint (buf ! off) * 256 + uint (buf ! (off + 1)))
      else Inl RangeError)"

definition readUInt32BE :: "byte list \<Rightarrow> nat \<Rightarrow> error + int" where
  "readUInt32BE buf off =
     (if off + 4 \<le> length buf then
        Inr (uint (buf ! off) * 16777216 + uint (buf ! (off + 1)) * 65536
             + uint (buf ! (off + 2)) * 256 + uint (buf ! (off + 3)))
      else Inl RangeError)"

definition PROTOCOL_VERSION :: int where
  "PROTOCOL_VERSION = 0x0100"

text \<open>
  A JavaScript number that is an integer or \<open>NaN\<close>: the timestamp of a decoded message
  is \<open>readUInt32BE\<close>'s result in the binary format and \<open>Math.floor(x / 1000)\<close> in
  the legacy text formats, where \<open>x\<close> is \<open>parseInt\<close>'s result for the colon format
  and so \<open>NaN\<close> when the last field is not a number.
\<close>

datatype jsnumber = Num int | NaN

record InterLockMessage =
  msg_signalType :: int
  msg_version :: int
  msg_timestamp :: jsnumber
  msg_payload :: json

text \<open>
  \<open>encodeMessage(signalType, sender, payload)\<close>; \<open>now\<close> is the reading of
  \<open>Date.now()\<close>.  In \<open>{ sender, ...payload }\<close> a \<open>sender\<close> key of the payload
  overwrites the injected one.
\<close>

definition encodeMessage :: "int \<Rightarrow> string \<Rightarrow> jsobject \<Rightarrow> int \<Rightarrow> error + byte list" where
  "encodeMessage signalType sender payload now =
     (let fullPayload = JSON_stringify (JObj (obj_spread [(''sender'', JStr sender)] payload));
          payloadBuffer = utf8_bytes fullPayload
      in case writeUInt16BE signalType of
           Inl e \<Rightarrow> Inl e
         | Inr h0 \<Rightarrow>
        (case writeUInt16BE PROTOCOL_VERSION of
           Inl e \<Rightarrow> Inl e
         | Inr h2 \<Rightarrow>
        (case writeUInt32BE (int (length payloadBuffer)) of
           Inl e \<Rightarrow> Inl e
         | Inr h4 \<Rightarrow>
        (case writeUInt32BE (now div 1000) of
           Inl e \<Rightarrow> Inl e
         | Inr h8 \<Rightarrow> Inr (h0 @ h2 @ h4 @ h8 @ payloadBuffer)))))"

text \<open>
  The sender fallback of the decoder, \<open>if (!payload.sender) payload.sender =
  payload.serverId || payload.source || 'unknown'\<close>, on the parsed body.  The module is
  an ES module and so strict: the assignment throws on a primitive, the read throws on
  \<open>null\<close>.  On an array the assignment adds a named property, which the datatype does
  not hold: the array is returned as it is.
\<close>

definition sender_fallback :: "jsobject \<Rightarrow> json" where
  "sender_fallback obj =
     (if truthy (obj_get obj ''serverId'') then the (obj_get obj ''serverId'')
      else if truthy (obj_get obj ''source'') then the (obj_get obj ''source'')
      else JStr ''unknown'')"

fun ensure_sender :: "json \<Rightarrow> json option" where
  "ensure_sender (JObj obj) =
     (if \<not> truthy (obj_get obj ''sender'')
      then Some (JObj (obj_set ''sender'' (sender_fallback obj) obj))
      else Some (JObj obj))"
| "ensure_sender (JArr xs) = Some (JArr xs)"
| "ensure_sender (JBuiltin f) = Some (JBuiltin f)"
| "ensure_sender v = None"

definition decodeBinaryMessage :: "byte list \<Rightarrow> InterLockMessage option" where
  "decodeBinaryMessage buffer =
     (case (readUInt16BE buffer 0, readUInt16BE buffer 2, readUInt32BE buffer 4,
            readUInt32BE buffer 8) of
        (Inr st, Inr ver, Inr payloadLength, Inr ts) \<Rightarrow>
          if st = 0 \<or> st > 0xFF then None
          else if payloadLength > int (length buffer) - 12 then None
          else
            (case JSON_parse (utf8_string (take (nat payloadLength) (drop 12 buffer))) of
               None \<Rightarrow> None
             | Some body \<Rightarrow>
                 (case ensure_sender body of
                    None \<Rightarrow> None
                  | Some p \<Rightarrow>
                      Some \<lparr>msg_signalType = st, msg_version = ver, msg_timestamp = Num ts,
                            msg_payload = p\<rparr>))
      | _ \<Rightarrow> None)"

section \<open>The tumbler (interlock/tumbler.js)\<close>

record TumblerConfig =
  allowedPeers :: "string list"
  allowedSignals :: "int list"

text \<open>
  The arithmetic and the comparisons of \<open>validateMessage\<close> on a number that may be
  \<open>NaN\<close>: \<open>Date.now() - timestamp * 1000\<close> is \<open>NaN\<close> for a \<open>NaN\<close> timestamp,
  and every comparison with \<open>NaN\<close> is false.
\<close>

fun message_age :: "int \<Rightarrow> jsnumber \<Rightarrow> jsnumber" where
  "message_age now (Num ts) = Num (now - ts * 1000)"
| "message_age now NaN = NaN"

fun js_gt :: "jsnumber \<Rightarrow> int \<Rightarrow> bool" where
  "js_gt (Num a) b = (a > b)"
| "js_gt NaN b = False"

fun js_lt :: "jsnumber \<Rightarrow> int \<Rightarrow> bool" where
  "js_lt (Num a) b = (a < b)"
| "js_lt NaN b = False"

text \<open>
  \<open>validateMessage(message)\<close> under the module's \<open>config\<close>.  The check of the sender
  against \<open>allowedPeers\<close> has an empty body in the source (its \<open>return false\<close> is
  commented out), so it contributes nothing.
\<close>

definition validateMessage :: "TumblerConfig \<Rightarrow> int \<Rightarrow> InterLockMessage \<Rightarrow> bool" where
  "validateMessage config now message =
     (if allowedSignals config \<noteq> [] \<and> msg_signalType message \<notin> set (allowedSignals config) then False
      else
        (let age = message_age now (msg_timestamp message) in
         if js_gt age (5 * 60 * 1000) \<or> js_lt age (- 60000) then False else True))"

text \<open>Auxiliary notions for the proofs about the reader.\<close>

definition digits_end :: "string \<Rightarrow> bool" where
  "digits_end r = (r = [] \<or> \<not> is_digit (hd r))"

definition number_end :: "string \<Rightarrow> bool" where
  "number_end r = (r = [] \<or> hd r \<in> {CHR '','', CHR '']'', CHR ''}''})"

definition value_start :: "char \<Rightarrow> bool" where
  "value_start c = (\<not> is_ws c \<and> c \<noteq> CHR '']'' \<and> c \<noteq> CHR ''}'' \<and> c \<noteq> CHR '','')"

abbreviation member_text :: "string \<times> json \<Rightarrow> string" where
  "member_text m \<equiv> string_literal (fst m) @ CHR '':'' # JSON_stringify (snd m)"

section \<open>The rule engine (relay/rule-engine.ts)\<close>

text \<open>
  \<open>String(v)\<close>, the coercion a value that is not a string undergoes when it is used as
  a property key.  An array joins the strings of its elements with commas, \<open>null\<close>
  elements giving the empty string; an object gives \<open>[object Object]\<close>, unless it has
  a \<open>toString\<close> key of its own, which is not callable: then the coercion throws a
  TypeError (\<open>None\<close>).
\<close>

fun js_string :: "json \<Rightarrow> string option"
  and js_strings :: "json list \<Rightarrow> string list option"
where
  "js_string JNull = Some ''null''"
| "js_string (JBool b) = Some (if b then ''true'' else ''false'')"
| "js_string (JNum n) = Some (Number_toString n)"
| "js_string (JStr s) = Some s"
| "js_string (JArr vs) = map_option commas (js_strings vs)"
| "js_string (JObj ms) = (if obj_has ms ''toString'' then None else Some ''[object Object]'')"
| "js_string (JBuiltin f) = Some (''function '' @ f @ ''() { [native code] }'')"
| "js_strings [] = Some []"
| "js_strings (v # vs) =
     (case (if v = JNull then Some [] else js_string v) of
        None \<Rightarrow> None
      | Some s \<Rightarrow> map_option ((#) s) (js_strings vs))"

text \<open>
  A rename entry of a transform: \<open>typeof value === 'object' && value !== null &&
  'rename' in value\<close>.  An array has no \<open>rename\<close> property.
\<close>

fun is_rename :: "json \<Rightarrow> bool" where
  "is_rename (JObj flds) = obj_has flds ''rename''"
| "is_rename v = False"

text \<open>
  The object \<open>result\<close> of \<open>applyTransform\<close> is its own properties and its prototype:
  \<open>Object.prototype\<close> at first, and what an assignment to the key \<open>__proto__\<close> has
  made it since.
\<close>

datatype prototype = ObjectPrototype | NullPrototype | ValuePrototype json

text \<open>
  The properties of \<open>Object.prototype\<close> that hold a function; \<open>__proto__\<close> is its
  accessor.
\<close>

definition Object_prototype_functions :: "string list" where
  "Object_prototype_functions =
     [''constructor'', ''__defineGetter__'', ''__defineSetter__'', ''hasOwnProperty'',
      ''__lookupGetter__'', ''__lookupSetter__'', ''isPrototypeOf'', ''propertyIsEnumerable'',
      ''toString'', ''valueOf'', ''toLocaleString'']"

text \<open>
  What a property lookup finds: a value, nothing, or something this model does not hold
  (\<open>Object.prototype\<close> itself, a method of \<open>Array.prototype\<close> or a property of a
  function).
\<close>

datatype lookup = Found json | Missing | Beyond

definition from_Object_prototype :: "json option \<Rightarrow> string \<Rightarrow> lookup" where
  "from_Object_prototype proto name =
     (if name = ''__proto__'' then (case proto of Some v \<Rightarrow> Found v | None \<Rightarrow> Beyond)
      else if name = ''constructor'' then Found (JBuiltin ''Object'')
      else if name \<in> set Object_prototype_functions then Found (JBuiltin name)
      else Missing)"

text \<open>
  The lookup of \<open>name\<close> along the prototype chain.  The getter of \<open>__proto__\<close> returns
  the prototype of \<open>result\<close>.  An array has its elements and \<open>length\<close>, then come the
  methods of \<open>Array.prototype\<close>.
\<close>

fun inherited :: "prototype \<Rightarrow> string \<Rightarrow> lookup" where
  "inherited ObjectPrototype name = from_Object_prototype None name"
| "inherited NullPrototype name = Missing"
| "inherited (ValuePrototype (JObj ms)) name =
     (case obj_get ms name of
        Some v \<Rightarrow> Found v
      | None \<Rightarrow> from_Object_prototype (Some (JObj ms)) name)"
| "inherited (ValuePrototype (JArr vs)) name =
     (if is_array_index name \<and> int_of_digits name < int (length vs)
      then Found (vs ! nat (int_of_digits name))
      else if name = ''length'' then Found (JNum (Number (int (length vs))))
      else if name = ''__proto__'' then Found (JArr vs)
      else Beyond)"
| "inherited (ValuePrototype v) name = Beyond"

definition js_get :: "jsobject \<times> prototype \<Rightarrow> string \<Rightarrow> lookup" where
  "js_get obj name =
     (case obj_get (fst obj) name of
        Some v \<Rightarrow> Found v
      | None \<Rightarrow> inherited (snd obj) name)"

text \<open>
  The setter of \<open>__proto__\<close>: an object, an array or a function becomes the prototype,
  \<open>null\<close> removes it, any other value is ignored.
\<close>

fun set_prototype :: "json \<Rightarrow> prototype \<Rightarrow> prototype" where
  "set_prototype (JObj ms) proto = ValuePrototype (JObj ms)"
| "set_prototype (JArr vs) proto = ValuePrototype (JArr vs)"
| "set_prototype (JBuiltin f) proto = ValuePrototype (JBuiltin f)"
| "set_prototype JNull proto = NullPrototype"
| "set_prototype v proto = proto"

text \<open>
  Whether an assignment to \<open>__proto__\<close>, which is no own key, reaches that setter: not
  when the chain is empty, nor when an object on it has a \<open>__proto__\<close> key of its own
  (as \<open>JSON.parse\<close> creates one).
\<close>

fun reaches_setter :: "prototype \<Rightarrow> bool" where
  "reaches_setter ObjectPrototype = True"
| "reaches_setter NullPrototype = False"
| "reaches_setter (ValuePrototype (JObj ms)) = (\<not> obj_has ms ''__proto__'')"
| "reaches_setter (ValuePrototype v) = True"

text \<open>The assignment \<open>result[key] = value\<close>.\<close>

definition js_assign :: "string \<Rightarrow> json \<Rightarrow> jsobject \<times> prototype \<Rightarrow> jsobject \<times> prototype" where
  "js_assign key v obj =
     (if key = ''__proto__'' \<and> \<not> obj_has (fst obj) key \<and> reaches_setter (snd obj)
      then (fst obj, set_prototype v (snd obj))
      else (obj_set key v (fst obj), snd obj))"

text \<open>
  One iteration of the loop of \<open>applyTransform\<close>, on the entry \<open>[key, value]\<close>.  Two
  runs leave the model and end in \<open>NotModelled\<close>: a rename whose source is found beyond
  the values held here, and a rename that stores a built-in function under the key
  \<open>toJSON\<close>, which \<open>JSON.stringify\<close> would call.
\<close>

definition transform_step ::
  "jsobject \<times> prototype \<Rightarrow> string \<times> json \<Rightarrow> error + jsobject \<times> prototype" where
  "transform_step result kv =
     (case kv of (key, v) \<Rightarrow>
        if v = JNull then Inr (AList.delete key (fst result), snd result)
        else if is_rename v then
          (case v of
             JObj flds \<Rightarrow>
               (case obj_get flds ''rename'' of
                  None \<Rightarrow> Inr result
                | Some src \<Rightarrow>
                    (case js_string src of
                       None \<Rightarrow> Inl TypeError
                     | Some renameFrom \<Rightarrow>
                         (case js_get result renameFrom of
                            Missing \<Rightarrow> Inr result
                          | Beyond \<Rightarrow> Inl NotModelled
                          | Found moved \<Rightarrow>
                              if is_builtin moved \<and> key = ''toJSON'' then Inl NotModelled
                              else
                                (case js_assign key moved result of
                                   (own, proto) \<Rightarrow> Inr (AList.delete renameFrom own, proto)))))
           | _ \<Rightarrow> Inr result)
        else Inr (js_assign key v result))"

fun transform_steps ::
  "jsobject \<times> prototype \<Rightarrow> jsobject \<Rightarrow> error + jsobject \<times> prototype" where
  "transform_steps result [] = Inr result"
| "transform_steps result (kv # entries) =
     (case transform_step result kv of
        Inl e \<Rightarrow> Inl e
      | Inr result' \<Rightarrow> transform_steps result' entries)"

text \<open>
  \<open>applyTransform(payload, transform)\<close>: a copy of the payload, then every entry of
  \<open>Object.entries(transform)\<close> in order; the own properties of \<open>result\<close> are what
  the callers read of it.
\<close>

definition applyTransform :: "jsobject \<Rightarrow> jsobject \<Rightarrow> error + jsobject" where
  "applyTransform payload transform =
     (case transform_steps (payload, ObjectPrototype) transform of
        Inl e \<Rightarrow> Inl e
      | Inr result \<Rightarrow> Inr (fst result))"

text \<open>
  \<open>Object.entries\<close> of what \<open>JSON.parse\<close> returned for a stored transform: the
  entries of an object, the indexed elements of an array or of a string, nothing for a
  number or a boolean, a TypeError for \<open>null\<close>.  The elements of a string are its
  UTF-16 code units, which are the bytes held here for ASCII text only: the entries of
  any other string are \<open>NotModelled\<close>.
\<close>

fun Object_entries :: "json \<Rightarrow> error + jsobject" where
  "Object_entries (JObj ms) = Inr ms"
| "Object_entries (JArr vs) = Inr (zip (map string_of_nat [0..<length vs]) vs)"
| "Object_entries (JStr s) =
     (if list_all (\<lambda>c. (of_char c :: nat) < 128) s
      then Inr (zip (map string_of_nat [0..<length s]) (map (\<lambda>c. JStr [c]) s))
      else Inl NotModelled)"
| "Object_entries JNull = Inl TypeError"
| "Object_entries v = Inr []"

text \<open>
  Auxiliary notions for the proofs about \<open>applyTransform\<close>.  The effect on the own
  properties of an entry that is no rename and whose key is not \<open>__proto__\<close>; and such
  an entry is in effect in an object when applying it would change nothing: a deleted
  key is absent, a set key has the value.
\<close>

definition plain_step :: "jsobject \<Rightarrow> string \<times> json \<Rightarrow> jsobject" where
  "plain_step q e = (if snd e = JNull then AList.delete (fst e) q else obj_set (fst e) (snd e) q)"

definition in_effect :: "string \<times> json \<Rightarrow> jsobject \<Rightarrow> bool" where
  "in_effect e q = (if snd e = JNull then fst e \<notin> fst ` set q else map_of q (fst e) = Some (snd e))"

section \<open>The store (database/schema.ts)\<close>

datatype SignalPriority = Low | Normal | High | Urgent

text \<open>The \<open>priority\<close> columns are TEXT: this is the string a priority is stored as.\<close>

fun priority_text :: "SignalPriority \<Rightarrow> string" where
  "priority_text Low = ''low''"
| "priority_text Normal = ''normal''"
| "priority_text High = ''high''"
| "priority_text Urgent = ''urgent''"

datatype BufferStatus = Pending | Delivered | Expired | Failed

record DbSignalBuffer =
  buf_id :: string
  buf_signal_type :: int
  buf_source_server :: string
  target_server :: string
  buf_payload :: string
  buf_priority :: SignalPriority
  buffered_at :: int
  retry_count :: int
  last_retry_at :: "int option"
  max_retries :: int
  expires_at :: "int option"
  status :: BufferStatus

record DbSignalRelay =
  rel_id :: string
  rel_signal_type :: int
  rel_source_server :: string
  rel_target_servers :: string
  rel_payload :: string
  rel_priority :: SignalPriority
  relayed_at :: int
  success :: int
  rel_targets_reached :: "string option"
  rel_targets_failed :: "string option"
  rel_latency_ms :: "int option"
  error_message :: "string option"

record DbRelayRule =
  rule_id :: int
  signal_pattern :: int
  source_filter :: "string option"
  relay_to :: string
  rule_transform :: "string option"
  rule_priority :: int
  enabled :: int
  created_at :: int
  updated_at :: "int option"
  match_count :: int

record DbRelayStats =
  stat_id :: int
  period_start :: int
  stat_signal_type :: "int option"
  stat_source_server :: "string option"
  stat_target_server :: "string option"
  total_relayed :: int
  success_count :: int
  failure_count :: int
  avg_latency_ms :: "real option"
  max_latency_ms :: "int option"
  buffered_count :: int

text \<open>
  The database: each table is the list of its rows in insertion (rowid) order.  A query
  without \<open>ORDER BY\<close> returns the rows in that order, and an \<open>ORDER BY\<close> keeps it
  among rows that compare equal.
\<close>

record Database =
  signal_relays :: "DbSignalRelay list"
  relay_rules :: "DbRelayRule list"
  signal_buffer :: "DbSignalBuffer list"
  relay_stats :: "DbRelayStats list"

definition empty_db :: Database where
  "empty_db = \<lparr>signal_relays = [], relay_rules = [], signal_buffer = [], relay_stats = []\<rparr>"

text \<open>A stable insertion sort by a comparison, for \<open>ORDER BY\<close>.\<close>

fun insert_by :: "('a \<Rightarrow> 'a \<Rightarrow> bool) \<Rightarrow> 'a \<Rightarrow> 'a list \<Rightarrow> 'a list" where
  "insert_by le x [] = [x]"
| "insert_by le x (y # ys) = (if le x y then x # y # ys else y # insert_by le x ys)"

definition order_by :: "('a \<Rightarrow> 'a \<Rightarrow> bool) \<Rightarrow> 'a list \<Rightarrow> 'a list" where
  "order_by le xs = foldr (insert_by le) xs []"

text \<open>\<open>insertSignalRelay\<close>: \<open>id\<close> is the primary key, a second row with it is refused.\<close>

definition insertSignalRelay :: "DbSignalRelay \<Rightarrow> Database \<Rightarrow> error + Database" where
  "insertSignalRelay relay db =
     (if rel_id relay \<in> set (map rel_id (signal_relays db)) then Inl ConstraintError
      else Inr (db\<lparr>signal_relays := signal_relays db @ [relay]\<rparr>))"

text \<open>\<open>getEnabledRelayRules\<close>: \<open>WHERE enabled = 1 ORDER BY priority DESC\<close>.\<close>

definition getEnabledRelayRules :: "Database \<Rightarrow> DbRelayRule list" where
  "getEnabledRelayRules db =
     order_by (\<lambda>a b. rule_priority a \<ge> rule_priority b) (filter (\<lambda>r. enabled r = 1) (relay_rules db))"

definition incrementRuleMatchCount :: "int \<Rightarrow> Database \<Rightarrow> Database" where
  "incrementRuleMatchCount rid db =
     db\<lparr>relay_rules :=
          map (\<lambda>r. if rule_id r = rid then r\<lparr>match_count := match_count r + 1\<rparr> else r) (relay_rules db)\<rparr>"

definition insertBufferedSignal :: "DbSignalBuffer \<Rightarrow> Database \<Rightarrow> error + Database" where
  "insertBufferedSignal buffer db =
     (if buf_id buffer \<in> set (map buf_id (signal_buffer db)) then Inl ConstraintError
      else Inr (db\<lparr>signal_buffer := signal_buffer db @ [buffer]\<rparr>))"

definition getBufferedSignal :: "string \<Rightarrow> Database \<Rightarrow> DbSignalBuffer option" where
  "getBufferedSignal bid db = find (\<lambda>b. buf_id b = bid) (signal_buffer db)"

text \<open>
  \<open>getPendingBufferedSignals(targetServer?)\<close>: the target filter is added only for a
  truthy argument, that is a non-empty string.
\<close>

definition getPendingBufferedSignals :: "string option \<Rightarrow> Database \<Rightarrow> DbSignalBuffer list" where
  "getPendingBufferedSignals targetServer db =
     order_by (\<lambda>a b. buffered_at a \<le> buffered_at b)
       (filter (\<lambda>b. status b = Pending \<and>
                     (case targetServer of
                        None \<Rightarrow> True
                      | Some t \<Rightarrow> t = [] \<or> target_server b = t))
          (signal_buffer db))"




definition updateBufferedSignalStatus :: "string \<Rightarrow> BufferStatus \<Rightarrow> Database \<Rightarrow> Database" where
  "updateBufferedSignalStatus bid st db =
     db\<lparr>signal_buffer :=
          map (\<lambda>b. if buf_id b = bid then b\<lparr>status := st\<rparr> else b) (signal_buffer db)\<rparr>"

definition incrementBufferRetryCount :: "int \<Rightarrow> string \<Rightarrow> Database \<Rightarrow> Database" where
  "incrementBufferRetryCount now bid db =
     db\<lparr>signal_buffer :=
          map (\<lambda>b. if buf_id b = bid
                    then b\<lparr>retry_count := retry_count b + 1, last_retry_at := Some now\<rparr> else b)
            (signal_buffer db)\<rparr>"

text \<open>\<open>deleteBufferedSignal\<close> returns whether a row was deleted (\<open>changes > 0\<close>).\<close>

definition deleteBufferedSignal :: "string \<Rightarrow> Database \<Rightarrow> bool \<times> Database" where
  "deleteBufferedSignal bid db =
     (\<exists>b \<in> set (signal_buffer db). buf_id b = bid,
      db\<lparr>signal_buffer := filter (\<lambda>b. buf_id b \<noteq> bid) (signal_buffer db)\<rparr>)"

text \<open>\<open>deleteBufferedSignalsByTarget\<close> returns the number of rows deleted.\<close>

definition deleteBufferedSignalsByTarget :: "string \<Rightarrow> Database \<Rightarrow> int \<times> Database" where
  "deleteBufferedSignalsByTarget targetServer db =
     (int (length (filter (\<lambda>b. target_server b = targetServer) (signal_buffer db))),
      db\<lparr>signal_buffer := filter (\<lambda>b. target_server b \<noteq> targetServer) (signal_buffer db)\<rparr>)"

record BufferStats =
  bs_pending :: int
  bs_delivered :: int
  bs_expired :: int
  bs_failed :: int

definition count_status :: "BufferStatus \<Rightarrow> Database \<Rightarrow> int" where
  "count_status st db = int (length (filter (\<lambda>b. status b = st) (signal_buffer db)))"

definition getBufferStats :: "Database \<Rightarrow> BufferStats" where
  "getBufferStats db =
     \<lparr>bs_pending = count_status Pending db, bs_delivered = count_status Delivered db,
      bs_expired = count_status Expired db, bs_failed = count_status Failed db\<rparr>"



text \<open>\<open>getRelayStats(since, until?)\<close>: the upper bound is added for a truthy \<open>until\<close>.\<close>

definition getRelayStats :: "int \<Rightarrow> int option \<Rightarrow> Database \<Rightarrow> DbRelayStats list" where
  "getRelayStats since until db =
     order_by (\<lambda>a b. period_start a \<ge> period_start b)
       (filter (\<lambda>s. period_start s \<ge> since \<and>
                     (case until of None \<Rightarrow> True | Some u \<Rightarrow> u = 0 \<or> period_start s \<le> u))
          (relay_stats db))"

section \<open>The buffer manager (relay/buffer-manager.ts)\<close>


definition DEFAULT_TTL_HOURS :: int where
  "DEFAULT_TTL_HOURS = 24"

definition MAX_RETRIES :: int where
  "MAX_RETRIES = 3"

type_synonym delivery = "(DbSignalBuffer \<Rightarrow> bool) option"

definition bufferSignal ::
  "int \<Rightarrow> string \<Rightarrow> int \<Rightarrow> string \<Rightarrow> string \<Rightarrow> jsobject \<Rightarrow> SignalPriority \<Rightarrow> int \<Rightarrow>
   Database \<Rightarrow> error + Database" where
  "bufferSignal now bufferId signalType sourceServer targetServer payload priority ttlHours db =
     insertBufferedSignal
       \<lparr>buf_id = bufferId,
        buf_signal_type = signalType,
        buf_source_server = sourceServer,
        target_server = targetServer,
        buf_payload = JSON_stringify (JObj payload),
        buf_priority = priority,
        buffered_at = now,
        retry_count = 0,
        last_retry_at = None,
        max_retries = MAX_RETRIES,
        expires_at = Some (now + ttlHours * 60 * 60 * 1000),
        status = Pending\<rparr>
       db"





text \<open>
  The state of a pass over the selected rows: the database, the counters, and the rows
  that got past the backoff check (the attempts), in order.
\<close>

record pass_state =
  ps_db :: Database
  ps_retried :: int
  ps_delivered :: int
  ps_failed :: int
  ps_attempts :: "DbSignalBuffer list"


definition start_pass :: "Database \<Rightarrow> pass_state" where
  "start_pass db = \<lparr>ps_db = db, ps_retried = 0, ps_delivered = 0, ps_failed = 0, ps_attempts = []\<rparr>"


record RetryResult =
  rt_attempted :: int
  rt_delivered :: int
  rt_failed :: int

text \<open>
  \<open>retryBufferedSignals(bufferIds)\<close>; \<open>retryNow k\<close> is the clock at the
  \<open>incrementBufferRetryCount\<close> for the id at position \<open>k\<close>.
\<close>

definition retry_row ::
  "(nat \<Rightarrow> int) \<Rightarrow> delivery \<Rightarrow> pass_state \<Rightarrow> nat \<times> string \<Rightarrow> pass_state" where
  "retry_row retryNow deliveryCallback s kid =
     (case kid of (k, bid) \<Rightarrow>
        (case getBufferedSignal bid (ps_db s) of
           None \<Rightarrow> s
         | Some buffer \<Rightarrow>
             if status buffer \<noteq> Pending then s
             else
               (let s1 = s\<lparr>ps_retried := ps_retried s + 1, ps_attempts := ps_attempts s @ [buffer]\<rparr> in
                case deliveryCallback of
                  None \<Rightarrow> s1
                | Some deliver \<Rightarrow>
                    if deliver buffer then
                      s1\<lparr>ps_db := updateBufferedSignalStatus bid Delivered (ps_db s1),
                          ps_delivered := ps_delivered s1 + 1\<rparr>
                    else
                      s1\<lparr>ps_db := incrementBufferRetryCount (retryNow k) bid (ps_db s1),
                          ps_failed := ps_failed s1 + 1\<rparr>)))"

definition retryBufferedSignals ::
  "(nat \<Rightarrow> int) \<Rightarrow> delivery \<Rightarrow> string list \<Rightarrow> Database \<Rightarrow>
   RetryResult \<times> Database \<times> DbSignalBuffer list" where
  "retryBufferedSignals retryNow deliveryCallback bufferIds db =
     (let s = foldl (retry_row retryNow deliveryCallback) (start_pass db)
                (List.enumerate 0 bufferIds)
      in (\<lparr>rt_attempted = ps_retried s, rt_delivered = ps_delivered s, rt_failed = ps_failed s\<rparr>,
          ps_db s, ps_attempts s))"

record ClearOptions =
  opt_bufferIds :: "string list option"
  opt_targetServer :: "string option"
  opt_signalType :: "int option"
  opt_maxAgeHours :: "int option"

fun delete_each :: "string list \<Rightarrow> int \<times> Database \<Rightarrow> int \<times> Database" where
  "delete_each [] acc = acc"
| "delete_each (bid # ids) (cleared, db) =
     (case deleteBufferedSignal bid db of
        (True, db1) \<Rightarrow> delete_each ids (cleared + 1, db1)
      | (False, db1) \<Rightarrow> delete_each ids (cleared, db1))"

text \<open>
  \<open>clearBufferedSignals(options)\<close>: the branch on \<open>bufferIds\<close>, else the branch on a
  truthy \<open>targetServer\<close>; \<open>signalType\<close> and \<open>maxAgeHours\<close> are never read.
\<close>

definition clearBufferedSignals :: "ClearOptions \<Rightarrow> Database \<Rightarrow> int \<times> Database" where
  "clearBufferedSignals options db =
     (case opt_bufferIds options of
        Some (bid # ids) \<Rightarrow> delete_each (bid # ids) (0, db)
      | _ \<Rightarrow>
          (case opt_targetServer options of
             Some (c # cs) \<Rightarrow> deleteBufferedSignalsByTarget (c # cs) db
           | _ \<Rightarrow> (0, db)))"

record FlushResult =
  fl_flushed :: int
  fl_delivered :: int
  fl_failed :: int

definition flush_row :: "delivery \<Rightarrow> pass_state \<Rightarrow> DbSignalBuffer \<Rightarrow> pass_state" where
  "flush_row deliveryCallback s buffer =
     (let s1 = s\<lparr>ps_retried := ps_retried s + 1, ps_attempts := ps_attempts s @ [buffer]\<rparr> in
      case deliveryCallback of
        None \<Rightarrow> s1
      | Some deliver \<Rightarrow>
          if deliver buffer then
            s1\<lparr>ps_db := updateBufferedSignalStatus (buf_id buffer) Delivered (ps_db s1),
                ps_delivered := ps_delivered s1 + 1\<rparr>
          else
            s1\<lparr>ps_db := updateBufferedSignalStatus (buf_id buffer) Failed (ps_db s1),
                ps_failed := ps_failed s1 + 1\<rparr>)"

definition flushBuffer ::
  "delivery \<Rightarrow> string option \<Rightarrow> Database \<Rightarrow> FlushResult \<times> Database \<times> DbSignalBuffer list" where
  "flushBuffer deliveryCallback targetServer db =
     (let pending = getPendingBufferedSignals targetServer db;
          s = foldl (flush_row deliveryCallback) (start_pass db) pending
      in (\<lparr>fl_flushed = ps_retried s, fl_delivered = ps_delivered s, fl_failed = ps_failed s\<rparr>,
          ps_db s, ps_attempts s))"

section \<open>The \<open>buffer_signals\<close> tool, action \<open>clear\<close> (tools/buffer-signals.js)\<close>

record BufferSignalsInput =
  in_target_server :: "string option"
  in_signal_type :: "int option"
  in_max_age_hours :: "int option"
  in_buffer_ids :: "string list option"

definition handleBufferSignals_clear :: "BufferSignalsInput \<Rightarrow> Database \<Rightarrow> int \<times> Database" where
  "handleBufferSignals_clear input db =
     clearBufferedSignals
       \<lparr>opt_bufferIds = in_buffer_ids input, opt_targetServer = in_target_server input,
        opt_signalType = in_signal_type input, opt_maxAgeHours = in_max_age_hours input\<rparr>
       db"

section \<open>The delivery engine (relay/engine.js)\<close>

record BufferConfig =
  max_size :: int
  ttl_hours :: int
  retry_intervals_ms :: "int list"

record InterlockConfig =
  cfg_port :: int
  peers :: "string list"
  peer_ports :: "(string \<times> int) list"
  signals_incoming :: "string list"
  signals_outgoing :: "string list"
  buffer_config :: BufferConfig
  stats_aggregation_interval_ms :: int

text \<open>
  The module variables \<open>config\<close> and \<open>udpSocket\<close> of the engine, both \<open>null\<close>
  until \<open>initRelayEngine\<close> has run.
\<close>

record RelayEngine =
  eng_config :: "InterlockConfig option"
  eng_socket :: bool

definition initRelayEngine :: "InterlockConfig \<Rightarrow> RelayEngine" where
  "initRelayEngine cfg = \<lparr>eng_config = Some cfg, eng_socket = True\<rparr>"

record RelayRequest =
  req_signal_type :: int
  req_source_server :: string
  req_target_servers :: "string list"
  req_payload :: jsobject
  req_priority :: SignalPriority
  req_buffer_if_offline :: bool

record RelayResult =
  relay_id :: string
  relayed :: bool
  targets_reached :: "string list"
  targets_failed :: "string list"
  targets_buffered :: "string list"
  latency_ms :: int

text \<open>
  \<open>matchRules\<close>.  The regular expression engine is a parameter: \<open>regex pat s\<close> is
  \<open>None\<close> when \<open>new RegExp(pat)\<close> throws and the result of \<open>test\<close> otherwise.  The
  filter increments the match count of every rule it keeps.
\<close>

type_synonym regex = "string \<Rightarrow> string \<Rightarrow> bool option"

definition rule_matches :: "regex \<Rightarrow> int \<Rightarrow> string \<Rightarrow> DbRelayRule \<Rightarrow> bool" where
  "rule_matches regex signalType sourceServer rule =
     (if signal_pattern rule \<noteq> signalType then False
      else
        (case source_filter rule of
           None \<Rightarrow> True
         | Some pat \<Rightarrow>
             if pat = [] then True
             else (case regex pat sourceServer of Some False \<Rightarrow> False | _ \<Rightarrow> True)))"

definition matchRules :: "regex \<Rightarrow> int \<Rightarrow> string \<Rightarrow> Database \<Rightarrow> DbRelayRule list \<times> Database" where
  "matchRules regex signalType sourceServer db =
     (let matched = filter (rule_matches regex signalType sourceServer) (getEnabledRelayRules db)
      in (matched, foldl (\<lambda>d r. incrementRuleMatchCount (rule_id r) d) db matched))"

text \<open>
  The transforms of the matched rules, in order: \<open>JSON.parse\<close> throws a SyntaxError on
  a stored text that is not JSON, and an exception of \<open>applyTransform\<close> ends the loop.
\<close>

fun apply_rule_transforms :: "DbRelayRule list \<Rightarrow> jsobject \<Rightarrow> error + jsobject" where
  "apply_rule_transforms [] payload = Inr payload"
| "apply_rule_transforms (rule # rules) payload =
     (case rule_transform rule of
        None \<Rightarrow> apply_rule_transforms rules payload
      | Some txt \<Rightarrow>
          if txt = [] then apply_rule_transforms rules payload
          else
            (case JSON_parse txt of
               None \<Rightarrow> Inl SyntaxError
             | Some t \<Rightarrow>
                 (case Object_entries t of
                    Inl e \<Rightarrow> Inl e
                  | Inr entries \<Rightarrow>
                      (case applyTransform payload entries of
                         Inl e \<Rightarrow> Inl e
                       | Inr payload' \<Rightarrow> apply_rule_transforms rules payload'))))"

text \<open>
  \<open>encodeRelayMessage\<close>: the datagram is the UTF-8 text of a JSON object.
\<close>

definition encodeRelayMessage :: "int \<Rightarrow> string \<Rightarrow> jsobject \<Rightarrow> SignalPriority \<Rightarrow> int \<Rightarrow> byte list" where
  "encodeRelayMessage signalType sender payload priority now =
     utf8_bytes (JSON_stringify (JObj
       [(''type'', JNum (Number signalType)),
        (''sender'', JStr sender),
        (''payload'', JObj payload),
        (''priority'', JStr (priority_text priority)),
        (''timestamp'', JNum (Number now))]))"

text \<open>
  \<open>sendToTarget\<close>: the datagram that \<open>udpSocket.send\<close> takes with its port, if
  any, and the value the promise resolves to.  \<open>send_ok\<close> is the environment's answer
  for this send (no error in the callback).  A port of 0 is falsy, like a missing one; for
  any other port outside 1 to 65535 \<open>send\<close> throws and the promise is rejected, which
  the caller counts like \<open>false\<close>.
\<close>

definition sendToTarget ::
  "RelayEngine \<Rightarrow> string \<Rightarrow> int \<Rightarrow> jsobject \<Rightarrow> SignalPriority \<Rightarrow> int \<Rightarrow> bool \<Rightarrow>
   (int \<times> byte list) option \<times> bool" where
  "sendToTarget eng target signalType payload priority now send_ok =
     (case eng_config eng of
        None \<Rightarrow> (None, False)
      | Some cfg \<Rightarrow>
          if \<not> eng_socket eng then (None, False)
          else
            (case map_of (peer_ports cfg) target of
               None \<Rightarrow> (None, False)
             | Some targetPort \<Rightarrow>
                 if targetPort = 0 then (None, False)
                 else if targetPort < 0 \<or> 65535 < targetPort then (None, False)
                 else (Some (targetPort,
                             encodeRelayMessage signalType ''synapse-relay'' payload priority now),
                       send_ok)))"

record relay_state =
  rs_db :: Database
  rs_reached :: "string list"
  rs_failed :: "string list"
  rs_buffered :: "string list"

text \<open>
  The \<open>forEach\<close> over the settled results: \<open>(i, target, ok)\<close> is the position, the
  target and the value of its promise; \<open>uuid i\<close> is the UUID drawn when that target is
  buffered.  \<open>bufferSignal\<close> is called without a TTL, so with \<open>DEFAULT_TTL_HOURS\<close>; an
  exception of the store ends the loop.
\<close>

fun classify_all ::
  "int \<Rightarrow> RelayRequest \<Rightarrow> jsobject \<Rightarrow> (nat \<Rightarrow> string) \<Rightarrow> (nat \<times> string \<times> bool) list \<Rightarrow>
   relay_state \<Rightarrow> relay_state \<times> error option" where
  "classify_all now request payload uuid [] s = (s, None)"
| "classify_all now request payload uuid ((i, target, ok) # rest) s =
     (if ok then
        classify_all now request payload uuid rest (s\<lparr>rs_reached := rs_reached s @ [target]\<rparr>)
      else
        (let s1 = s\<lparr>rs_failed := rs_failed s @ [target]\<rparr> in
         if req_buffer_if_offline request then
           (case bufferSignal now (uuid i) (req_signal_type request) (req_source_server request)
                   target payload (req_priority request) DEFAULT_TTL_HOURS (rs_db s1) of
              Inl e \<Rightarrow> (s1, Some e)
            | Inr db1 \<Rightarrow>
                classify_all now request payload uuid rest
                  (s1\<lparr>rs_db := db1, rs_buffered := rs_buffered s1 @ [target]\<rparr>))
         else classify_all now request payload uuid rest s1))"

text \<open>
  The sends of \<open>relaySignal\<close>, one per position of \<open>target_servers\<close>;
  \<open>send_ok i\<close> is the environment's answer for the send at position \<open>i\<close>.
\<close>

definition send_all ::
  "RelayEngine \<Rightarrow> RelayRequest \<Rightarrow> jsobject \<Rightarrow> int \<Rightarrow> (nat \<Rightarrow> bool) \<Rightarrow>
   ((int \<times> byte list) option \<times> bool) list" where
  "send_all eng request payload startTime send_ok =
     map (\<lambda>(i, target).
            sendToTarget eng target (req_signal_type request) payload (req_priority request)
              startTime (send_ok i))
       (List.enumerate 0 (req_target_servers request))"

text \<open>The settled results with their positions and targets, as the \<open>forEach\<close> sees them.\<close>

definition settled ::
  "RelayRequest \<Rightarrow> ((int \<times> byte list) option \<times> bool) list \<Rightarrow> (nat \<times> string \<times> bool) list" where
  "settled request results =
     zip [0..<length (req_target_servers request)]
       (zip (req_target_servers request) (map snd results))"

text \<open>The row \<open>relaySignal\<close> inserts into \<open>signal_relays\<close>, and the value it returns.\<close>

definition relay_row ::
  "string \<Rightarrow> RelayRequest \<Rightarrow> jsobject \<Rightarrow> int \<Rightarrow> int \<Rightarrow> relay_state \<Rightarrow> DbSignalRelay" where
  "relay_row relayId request payload endTime latencyMs s =
     \<lparr>rel_id = relayId,
      rel_signal_type = req_signal_type request,
      rel_source_server = req_source_server request,
      rel_target_servers = JSON_stringify (JArr (map JStr (req_target_servers request))),
      rel_payload = JSON_stringify (JObj payload),
      rel_priority = req_priority request,
      relayed_at = endTime,
      success = (if rs_reached s \<noteq> [] then 1 else 0),
      rel_targets_reached = Some (JSON_stringify (JArr (map JStr (rs_reached s)))),
      rel_targets_failed = Some (JSON_stringify (JArr (map JStr (rs_failed s)))),
      rel_latency_ms = Some latencyMs,
      error_message = None\<rparr>"

definition relay_result :: "string \<Rightarrow> int \<Rightarrow> relay_state \<Rightarrow> RelayResult" where
  "relay_result relayId latencyMs s =
     \<lparr>relay_id = relayId,
      relayed = (rs_reached s \<noteq> []),
      targets_reached = rs_reached s,
      targets_failed = rs_failed s,
      targets_buffered = rs_buffered s,
      latency_ms = latencyMs\<rparr>"

text \<open>
  \<open>relaySignal(request)\<close>.  \<open>startTime\<close> is the clock before the sends and
  \<open>endTime\<close> the clock after they have settled.  The result is the database, the
  datagrams handed to the socket, and the returned value or the exception.
\<close>

definition relaySignal ::
  "regex \<Rightarrow> RelayEngine \<Rightarrow> int \<Rightarrow> int \<Rightarrow> string \<Rightarrow> (nat \<Rightarrow> string) \<Rightarrow> (nat \<Rightarrow> bool) \<Rightarrow>
   RelayRequest \<Rightarrow> Database \<Rightarrow> Database \<times> (int \<times> byte list) list \<times> (error + RelayResult)" where
  "relaySignal regex eng startTime endTime relayId uuid send_ok request db =
     (case matchRules regex (req_signal_type request) (req_source_server request) db of
        (rules, db1) \<Rightarrow>
          (case apply_rule_transforms rules (req_payload request) of
             Inl e \<Rightarrow> (db1, [], Inl e)
           | Inr payload \<Rightarrow>
               (let results = send_all eng request payload startTime send_ok;
                    sent = List.map_filter fst results
                in case classify_all endTime request payload uuid (settled request results)
                          \<lparr>rs_db = db1, rs_reached = [], rs_failed = [], rs_buffered = []\<rparr> of
                     (s, Some e) \<Rightarrow> (rs_db s, sent, Inl e)
                   | (s, None) \<Rightarrow>
                       (let latencyMs = endTime - startTime in
                        case insertSignalRelay
                               (relay_row relayId request payload endTime latencyMs s) (rs_db s) of
                          Inl e \<Rightarrow> (rs_db s, sent, Inl e)
                        | Inr db2 \<Rightarrow> (db2, sent, Inr (relay_result relayId latencyMs s))))))"

section \<open>The stats aggregator (relay/stats-aggregator.ts)\<close>

text \<open>
  A list of target names as a relay row stores it, read back the way
  \<open>aggregateHourlyStats\<close> does: \<open>relay.targets_reached ? JSON.parse(...) : []\<close>.
\<close>

fun string_array :: "json \<Rightarrow> string list option" where
  "string_array (JArr vs) =
     (if list_all (\<lambda>v. case v of JStr s \<Rightarrow> True | _ \<Rightarrow> False) vs
      then Some (map (\<lambda>v. case v of JStr s \<Rightarrow> s | _ \<Rightarrow> []) vs) else None)"
| "string_array v = None"

definition stored_targets :: "string option \<Rightarrow> string list option" where
  "stored_targets col =
     (case col of
        None \<Rightarrow> Some []
      | Some txt \<Rightarrow>
          if txt = [] then Some []
          else (case JSON_parse txt of None \<Rightarrow> None | Some v \<Rightarrow> string_array v))"

text \<open>
  \<open>getRelayStatistics\<close>.  The rates are computed in exact arithmetic, and the
  \<open>by_group\<close> map, which no property below is about, is left out.  The object literal of
  \<open>buffer_stats\<close> is the list of its named fields.
\<close>

record RelayStatistics =
  st_total_relayed :: int
  st_success_rate :: real
  st_avg_latency_ms :: real
  st_buffer_stats :: "(string \<times> int) list"

definition getRelayStatistics :: "int \<Rightarrow> int option \<Rightarrow> Database \<Rightarrow> RelayStatistics" where
  "getRelayStatistics since until db =
     (let stats = getRelayStats since until db;
          bufferStats = getBufferStats db;
          totalRelayed = sum_list (map total_relayed stats);
          totalSuccess = sum_list (map success_count stats);
          timed = filter (\<lambda>s. avg_latency_ms s \<noteq> None) stats;
          totalLatency = sum_list (map (\<lambda>s. the (avg_latency_ms s) * real_of_int (total_relayed s)) timed);
          latencyCount = sum_list (map total_relayed timed)
      in \<lparr>st_total_relayed = totalRelayed,
          st_success_rate =
            (if totalRelayed > 0 then real_of_int totalSuccess / real_of_int totalRelayed * 100 else 0),
          st_avg_latency_ms =
            (if latencyCount > 0 then totalLatency / real_of_int latencyCount else 0),
          st_buffer_stats =
            [(''pending'', bs_pending bufferStats),
             (''delivered'', bs_delivered bufferStats),
             (''expired'', bs_expired bufferStats)]\<rparr>)"

section \<open>Example stores\<close>

text \<open>
  A store with one buffered signal for target \<open>B\<close>, a delivery callback that never
  delivers, one manual retry of that signal, and the store after a flush that failed.
\<close>

definition one_pending :: Database where
  "one_pending =
     (case bufferSignal 1700000000000 ''b1'' 0x50 ''synapse-relay'' ''B'' [(''x'', JNum (Decimal 1 0))] Normal
             DEFAULT_TTL_HOURS empty_db of
        Inr db \<Rightarrow> db | Inl e \<Rightarrow> empty_db)"

definition never_delivers :: delivery where
  "never_delivers = Some (\<lambda>b. False)"

definition retry_once :: "Database \<Rightarrow> Database" where
  "retry_once db =
     fst (snd (retryBufferedSignals (\<lambda>k. 1700000001000) never_delivers [''b1''] db))"

definition one_failed :: Database where
  "one_failed = fst (snd (flushBuffer never_delivers None one_pending))"

text \<open>
  A relay of signal 0x50 to \<open>A\<close>, which has a port, and \<open>B\<close>, which has none, with no
  rule in the store; every regular expression matches, and every send succeeds.
\<close>

definition any_regex :: regex where
  "any_regex pat s = Some True"

definition example_config :: InterlockConfig where
  "example_config =
     \<lparr>cfg_port = 3025, peers = [''A'', ''B''], peer_ports = [(''A'', 4001)],
      signals_incoming = [], signals_outgoing = [],
      buffer_config = \<lparr>max_size = 10, ttl_hours = 1, retry_intervals_ms = [10]\<rparr>,
      stats_aggregation_interval_ms = 3600000\<rparr>"

definition example_request :: RelayRequest where
  "example_request =
     \<lparr>req_signal_type = 0x50, req_source_server = ''synapse-relay'',
      req_target_servers = [''A'', ''B''], req_payload = [(''x'', JNum (Decimal 1 0))],
      req_priority = Normal, req_buffer_if_offline = True\<rparr>"

definition example_uuid :: "nat \<Rightarrow> string" where
  "example_uuid i = CHR ''u'' # string_of_nat i"

definition example_relay :: "Database \<times> (int \<times> byte list) list \<times> (error + RelayResult)" where
  "example_relay =
     relaySignal any_regex (initRelayEngine example_config) 1700000000000 1700000000005 ''r1''
       example_uuid (\<lambda>i. True) example_request empty_db"

text \<open>A row as \<open>bufferSignal\<close> writes it at time \<open>now\<close> with the default TTL.\<close>

definition fresh_row :: "int \<Rightarrow> DbSignalBuffer \<Rightarrow> bool" where
  "fresh_row now b =
     (max_retries b = 3 \<and> retry_count b = 0 \<and> status b = Pending \<and> last_retry_at b = None \<and>
      buffered_at b = now \<and> expires_at b = Some (buffered_at b + 24 * 3600000))"




section \<open>Properties of the JSON reader and printer\<close>

lemma ipow_power: "ipow b k = b ^ nat k"
proof (induction b k rule: ipow.induct)
  case (1 b k)
  show ?case
  proof (cases "k \<le> 0")
    case True
    then show ?thesis by (subst ipow.simps) simp
  next
    case False
    then have "nat k = Suc (nat (k - 1))" by simp
    with 1 False show ?thesis by (subst ipow.simps) simp
  qed
qed

lemma scale_nonneg: "0 \<le> k \<Longrightarrow> scale b x k = x * b ^ nat k"
  by (simp add: scale_def ipow_power)

lemma scale_nonpos: "k \<le> 0 \<Longrightarrow> scale b x k = x"
  by (simp add: scale_def ipow_power)

text \<open>A decimal with zeros behind its digits denotes the same Number.\<close>

lemma Number_value_zeros: "0 \<le> p \<Longrightarrow> Number_value (s * 10 ^ nat p) 0 = Number_value s p"
proof -
  assume p: "0 \<le> p"
  have a: "scale 10 \<bar>s * 10 ^ nat p\<bar> 0 = scale 10 \<bar>s\<bar> p"
    using p by (simp add: scale_nonneg abs_mult)
  have b: "scale 10 1 (- 0) = scale 10 1 (- p)"
    using p by (simp add: scale_nonpos)
  have c: "sgn (s * 10 ^ nat p) = sgn s" by (simp add: sgn_mult)
  have d: "(s * 10 ^ nat p = 0) = (s = 0)" by simp
  have e: "(0 < s * 10 ^ nat p) = (0 < s)" by (simp add: zero_less_mult_iff)
  show ?thesis by (simp only: Number_value_def a b c d e)
qed

lemma is_digit_digit_char: "0 \<le> d \<Longrightarrow> d < 10 \<Longrightarrow> is_digit (digit_char d)"
  by (simp add: is_digit_def digit_char_def)

lemma digit_val_digit_char: "0 \<le> d \<Longrightarrow> d < 10 \<Longrightarrow> digit_val (digit_char d) = d"
  by (simp add: digit_val_def digit_char_def)

lemma digit_char_zero: "0 \<le> d \<Longrightarrow> d < 10 \<Longrightarrow> (digit_char d = CHR ''0'') = (d = 0)"
proof -
  assume d: "0 \<le> d" "d < 10"
  have "(digit_char d = CHR ''0'') = ((of_char (digit_char d) :: int) = of_char (CHR ''0''))"
    by (simp only: of_char_eq_iff)
  also have "\<dots> = (d = 0)" using d by (simp add: digit_char_def)
  finally show ?thesis .
qed

lemma decimal_digits: "0 \<le> n \<Longrightarrow> \<forall>c \<in> set (decimal n). is_digit c"
proof (induction n rule: decimal.induct)
  case (1 n)
  show ?case
  proof (cases "n < 10")
    case True
    with "1.prems" show ?thesis by (subst decimal.simps) (simp add: is_digit_digit_char)
  next
    case False
    then have "0 \<le> n div 10" "0 \<le> n mod 10" "n mod 10 < 10" by simp_all
    with 1 False show ?thesis by (subst decimal.simps) (simp add: is_digit_digit_char)
  qed
qed

lemma decimal_nonempty: "decimal n \<noteq> []"
  by (subst decimal.simps) simp

lemma int_of_digits_snoc: "int_of_digits (ds @ [c]) = 10 * int_of_digits ds + digit_val c"
  by (simp add: int_of_digits_def)

lemma int_of_digits_append:
  "int_of_digits (xs @ ys) = int_of_digits xs * 10 ^ length ys + int_of_digits ys"
proof (induction ys rule: rev_induct)
  case Nil
  show ?case by (simp add: int_of_digits_def)
next
  case (snoc y ys)
  have "int_of_digits (xs @ ys @ [y]) = 10 * int_of_digits (xs @ ys) + digit_val y"
    using int_of_digits_snoc [of "xs @ ys" y] by simp
  then show ?case by (simp add: snoc.IH int_of_digits_snoc algebra_simps)
qed

lemma int_of_digits_zeros: "int_of_digits (replicate n (CHR ''0'')) = 0"
  by (induction n) (simp_all add: int_of_digits_def digit_val_def)

lemma int_of_digits_decimal: "0 \<le> n \<Longrightarrow> int_of_digits (decimal n) = n"
proof (induction n rule: decimal.induct)
  case (1 n)
  show ?case
  proof (cases "n < 10")
    case True
    with "1.prems" show ?thesis
      by (subst decimal.simps) (simp add: int_of_digits_def digit_val_digit_char)
  next
    case False
    then have "0 \<le> n div 10" "0 \<le> n mod 10" "n mod 10 < 10" by simp_all
    with 1 False show ?thesis
      by (subst decimal.simps) (simp add: int_of_digits_snoc digit_val_digit_char)
  qed
qed

lemma hd_decimal: "0 \<le> n \<Longrightarrow> hd (decimal n) = CHR ''0'' \<Longrightarrow> n = 0"
proof (induction n rule: decimal.induct)
  case (1 n)
  show ?case
  proof (cases "n < 10")
    case True
    then have "decimal n = [digit_char n]" by (subst decimal.simps) simp
    with "1.prems" True show ?thesis by (simp add: digit_char_zero)
  next
    case False
    then have "decimal n = decimal (n div 10) @ [digit_char (n mod 10)]"
      by (subst decimal.simps) simp
    with "1.prems" have "hd (decimal (n div 10)) = CHR ''0''"
      by (simp add: decimal_nonempty)
    moreover have "0 \<le> n div 10" using False by simp
    ultimately have "n div 10 = 0" using 1 False by simp
    with False show ?thesis by simp
  qed
qed

lemma length_decimal_zero: "length (decimal 0) = 1"
  by (subst decimal.simps) simp

lemma takeWhile_run:
  "\<forall>c \<in> set ds. is_digit c \<Longrightarrow> digits_end r \<Longrightarrow> takeWhile is_digit (ds @ r) = ds"
  by (cases r) (auto simp: digits_end_def takeWhile_append2 takeWhile_eq_all_conv)

lemma dropWhile_run:
  "\<forall>c \<in> set ds. is_digit c \<Longrightarrow> digits_end r \<Longrightarrow> dropWhile is_digit (ds @ r) = r"
  by (cases r) (auto simp: digits_end_def dropWhile_append2)

lemma takeWhile_end: "digits_end r \<Longrightarrow> takeWhile is_digit r = []"
  by (cases r) (auto simp: digits_end_def)

lemma dropWhile_end: "digits_end r \<Longrightarrow> dropWhile is_digit r = r"
  by (cases r) (auto simp: digits_end_def)

lemma digits_end_simps [simp]:
  "digits_end []" "digits_end (CHR ''.'' # r)" "digits_end (CHR ''e'' # r)"
  "digits_end (CHR '','' # r)" "digits_end (CHR '']'' # r)" "digits_end (CHR ''}'' # r)"
  by (simp_all add: digits_end_def is_digit_def)

lemma number_end_digits_end: "number_end r \<Longrightarrow> digits_end r"
  by (auto simp: number_end_def digits_end_def is_digit_def)

lemma parse_digits_run:
  assumes "\<forall>c \<in> set ds. is_digit c" "ds \<noteq> []" "digits_end r"
  shows "parse_digits (ds @ r) = Some (int_of_digits ds, r)"
  unfolding parse_digits_def takeWhile_run [OF assms(1,3)] dropWhile_run [OF assms(1,3)]
  using assms(2) by simp

lemma parse_fraction_none:
  assumes "number_end r \<or> (\<exists>t. r = CHR ''e'' # t)"
  shows "parse_fraction r = Some ([], r)"
  using assms by (cases r) (auto simp: parse_fraction_def number_end_def)

lemma parse_fraction_run:
  assumes "\<forall>c \<in> set ds. is_digit c" "ds \<noteq> []" "digits_end r"
  shows "parse_fraction (CHR ''.'' # ds @ r) = Some (ds, r)"
  unfolding parse_fraction_def list.case takeWhile_run [OF assms(1,3)] dropWhile_run [OF assms(1,3)]
  using assms(2) by simp

lemma parse_exponent_none:
  assumes "number_end r"
  shows "parse_exponent r = Some (0, r)"
  using assms by (cases r) (auto simp: parse_exponent_def number_end_def)

lemma parse_exponent_text:
  assumes "number_end r"
  shows "parse_exponent (CHR ''e'' # exponent_text e @ r) = Some (e, r)"
proof (cases "e < 0")
  case True
  have "parse_digits (decimal (- e) @ r) = Some (- e, r)"
    using True assms decimal_digits [of "- e"] int_of_digits_decimal [of "- e"]
    by (simp add: parse_digits_run decimal_nonempty number_end_digits_end)
  with True show ?thesis by (simp add: parse_exponent_def exponent_text_def)
next
  case False
  have "parse_digits (decimal e @ r) = Some (e, r)"
    using False assms decimal_digits [of e] int_of_digits_decimal [of e]
    by (simp add: parse_digits_run decimal_nonempty number_end_digits_end)
  with False show ?thesis by (simp add: parse_exponent_def exponent_text_def)
qed

text \<open>
  The token that \<open>Number::toString\<close> prints for \<open>s * 10 ^ p\<close> is read as that decimal,
  or as \<open>s\<close> followed by \<open>p\<close> zeros.
\<close>

lemma parse_unsigned_text:
  assumes s: "0 < s" and r: "number_end r"
  shows "\<exists>t q. parse_unsigned (unsigned_text s p @ r) = Some ((t, q), r) \<and>
           ((t, q) = (s, p) \<or> (0 \<le> p \<and> (t, q) = (s * 10 ^ nat p, 0)))"
proof -
  define ds where "ds = decimal s"
  define k where "k = int (length ds)"
  define n where "n = p + k"
  have dig: "\<forall>c \<in> set ds. is_digit c" using decimal_digits [of s] s by (simp add: ds_def)
  have ne: "ds \<noteq> []" by (simp add: ds_def decimal_nonempty)
  have val: "int_of_digits ds = s" using int_of_digits_decimal [of s] s by (simp add: ds_def)
  have lead: "hd ds \<noteq> CHR ''0''" using hd_decimal [of s] s by (auto simp: ds_def)
  have kpos: "0 < k" using ne by (simp add: k_def)
  have de: "digits_end r" using r by (rule number_end_digits_end)
  have fr: "parse_fraction r = Some ([], r)" using r by (simp add: parse_fraction_none)
  have ex: "parse_exponent r = Some (0, r)" using r by (rule parse_exponent_none)
  have ut: "unsigned_text s p =
     (if k \<le> n \<and> n \<le> 21 then ds @ replicate (nat (n - k)) (CHR ''0'')
      else if 0 < n \<and> n \<le> 21 then take (nat n) ds @ CHR ''.'' # drop (nat n) ds
      else if - 6 < n \<and> n \<le> 0 then ''0.'' @ replicate (nat (- n)) (CHR ''0'') @ ds
      else if k = 1 then ds @ CHR ''e'' # exponent_text (n - 1)
      else hd ds # CHR ''.'' # tl ds @ CHR ''e'' # exponent_text (n - 1))"
    unfolding unsigned_text_def Let_def ds_def k_def n_def ..
  have exp_form: "unsigned_text s p =
            (if k = 1 then ds @ CHR ''e'' # exponent_text (n - 1)
             else hd ds # CHR ''.'' # List.tl ds @ CHR ''e'' # exponent_text (n - 1))"
    if "21 < n \<or> n \<le> - 6"
    using that kpos by (auto simp: ut)
  consider (ints) "k \<le> n" "n \<le> 21"
    | (point) "n < k" "0 < n" "n \<le> 21"
    | (small) "- 6 < n" "n \<le> 0"
    | (exp1) "21 < n \<or> n \<le> - 6" "k = 1"
    | (exp2) "21 < n \<or> n \<le> - 6" "k \<noteq> 1"
    by linarith
  then show ?thesis
  proof cases
    case ints
    define zs where "zs = replicate (nat (n - k)) (CHR ''0'')"
    have tx: "unsigned_text s p = ds @ zs"
      using ints by (simp add: ut zs_def)
    have dz: "\<forall>c \<in> set (ds @ zs). is_digit c" using dig by (auto simp: zs_def is_digit_def)
    have p: "0 \<le> p" "nat (n - k) = nat p" using ints by (simp_all add: n_def)
    have v: "int_of_digits (ds @ zs) = s * 10 ^ nat p"
      by (simp add: int_of_digits_append val zs_def int_of_digits_zeros p)
    have h: "hd (ds @ zs) \<noteq> CHR ''0''" using lead ne by simp
    have "parse_unsigned ((ds @ zs) @ r) = Some ((s * 10 ^ nat p, 0), r)"
      unfolding parse_unsigned_def Let_def
      using h ne by (simp only: takeWhile_run [OF dz de] dropWhile_run [OF dz de])
        (simp add: fr ex v del: hd_append2)
    then show ?thesis using tx p by auto
  next
    case point
    have nk: "n < k" using point by simp
    define a where "a = take (nat n) ds"
    define b where "b = drop (nat n) ds"
    have tx: "unsigned_text s p = a @ CHR ''.'' # b"
      using point by (simp add: ut a_def b_def)
    have ab: "a @ b = ds" by (simp add: a_def b_def)
    have da: "\<forall>c \<in> set a. is_digit c" using dig by (auto simp: a_def dest: in_set_takeD)
    have db: "\<forall>c \<in> set b. is_digit c" using dig by (auto simp: b_def dest: in_set_dropD)
    have ane: "a \<noteq> []" using point(2) ne by (simp add: a_def)
    have nn: "nat n < length ds" using nk point(2) by (simp add: k_def)
    have bne: "b \<noteq> []" using nn by (simp add: b_def)
    have lb: "int (length b) = k - n" using nn point(2) by (simp add: b_def k_def)
    have ha: "hd a \<noteq> CHR ''0''" using lead ane by (simp add: a_def)
    have f: "parse_fraction (CHR ''.'' # b @ r) = Some (b, r)"
      using db bne de by (rule parse_fraction_run)
    have "parse_unsigned (a @ (CHR ''.'' # b @ r)) = Some ((s, p), r)"
      unfolding parse_unsigned_def Let_def
      using ha ane lb
      by (simp only: takeWhile_run [OF da digits_end_simps(2)]
          dropWhile_run [OF da digits_end_simps(2)])
        (simp add: f ex ab val n_def)
    then show ?thesis using tx by simp
  next
    case small
    define zs where "zs = replicate (nat (- n)) (CHR ''0'')"
    define fp where "fp = zs @ ds"
    have tx: "unsigned_text s p = ''0'' @ CHR ''.'' # fp"
      using small kpos by (simp add: ut zs_def fp_def)
    have d0: "\<forall>c \<in> set ''0''. is_digit c" by (simp add: is_digit_def)
    have dz: "\<forall>c \<in> set fp. is_digit c" using dig by (auto simp: zs_def fp_def is_digit_def)
    have zne: "fp \<noteq> []" using ne by (simp add: fp_def)
    have lz: "int (length fp) = k - n" using small by (simp add: zs_def fp_def k_def)
    have z0: "int_of_digits ''0'' = 0" by (simp add: int_of_digits_def digit_val_def)
    have zz: "int_of_digits zs = 0" unfolding zs_def by (rule int_of_digits_zeros)
    have v1: "int_of_digits fp = s"
      using int_of_digits_append [of zs ds] zz val by (simp add: fp_def)
    have v: "int_of_digits (''0'' @ fp) = s"
      using int_of_digits_append [of "''0''" fp] z0 v1 by simp
    have f: "parse_fraction (CHR ''.'' # fp @ r) = Some (fp, r)"
      using dz zne de by (rule parse_fraction_run)
    have "parse_unsigned (''0'' @ (CHR ''.'' # fp @ r)) = Some ((s, p), r)"
      unfolding parse_unsigned_def Let_def
      using lz v
      by (simp only: takeWhile_run [OF d0 digits_end_simps(2)]
          dropWhile_run [OF d0 digits_end_simps(2)])
        (simp add: f ex n_def)
    then show ?thesis using tx by simp
  next
    case exp1
    define tail where "tail = CHR ''e'' # exponent_text (n - 1) @ r"
    have tx: "unsigned_text s p @ r = ds @ tail"
      using exp_form [OF exp1(1)] exp1(2) by (simp add: tail_def)
    have f: "parse_fraction tail = Some ([], tail)"
      by (simp add: parse_fraction_none tail_def)
    have e: "parse_exponent tail = Some (n - 1, r)"
      unfolding tail_def using r by (rule parse_exponent_text)
    have te: "digits_end tail" by (simp add: tail_def)
    have l1: "length ds = 1" using exp1(2) by (simp add: k_def)
    have np: "n - 1 = p" using exp1(2) by (simp add: n_def)
    have "parse_unsigned (ds @ tail) = Some ((s, p), r)"
      unfolding parse_unsigned_def Let_def
      using ne l1
      by (simp only: takeWhile_run [OF dig te] dropWhile_run [OF dig te])
        (simp add: f e val np)
    then show ?thesis using tx by simp
  next
    case exp2
    obtain d tl where c: "ds = d # tl" using ne by (cases ds) auto
    have tne: "tl \<noteq> []" using exp2(2) c by (auto simp: k_def)
    define tail where "tail = CHR ''e'' # exponent_text (n - 1) @ r"
    have tx: "unsigned_text s p @ r = [d] @ CHR ''.'' # tl @ tail"
      using exp_form [OF exp2(1)] exp2(2) c by (simp add: tail_def)
    have dd: "\<forall>c \<in> set [d]. is_digit c" using dig c by simp
    have dt: "\<forall>c \<in> set tl. is_digit c" using dig c by simp
    have te: "digits_end tail" by (simp add: tail_def)
    have f: "parse_fraction (CHR ''.'' # tl @ tail) = Some (tl, tail)"
      using dt tne te by (rule parse_fraction_run)
    have e: "parse_exponent tail = Some (n - 1, r)"
      unfolding tail_def using r by (rule parse_exponent_text)
    have v: "int_of_digits ([d] @ tl) = s" using val c by simp
    have np: "n - 1 - int (length tl) = p" using c by (simp add: n_def k_def)
    have "parse_unsigned ([d] @ (CHR ''.'' # tl @ tail)) = Some ((s, p), r)"
      unfolding parse_unsigned_def Let_def
      using v np
      by (simp only: takeWhile_run [OF dd digits_end_simps(2)]
          dropWhile_run [OF dd digits_end_simps(2)])
        (simp add: f e)
    then show ?thesis using tx by simp
  qed
qed

lemma unsigned_text_start:
  assumes "0 < s"
  shows "\<exists>c cs. unsigned_text s p = c # cs \<and> is_digit c"
proof -
  have dig: "\<forall>c \<in> set (decimal s). is_digit c" using decimal_digits [of s] assms by simp
  obtain d tl where c: "decimal s = d # tl" using decimal_nonempty [of s] by (cases "decimal s") auto
  have d: "is_digit d" using dig c by simp
  have z: "is_digit (CHR ''0'')" by (simp add: is_digit_def)
  have t: "\<not> n \<le> 0 \<Longrightarrow> take (nat n) (d # tl) = d # take (nat n - 1) tl" for n :: int
    by (cases "nat n") auto
  show ?thesis
    unfolding unsigned_text_def Let_def c using d z by (auto simp: t)
qed

lemma Number_toString_start:
  "\<exists>c cs. Number_toString (Decimal s p) = c # cs \<and> (c = CHR ''-'' \<or> is_digit c)"
proof -
  consider "s = 0" | "s < 0" | "0 < s" by linarith
  then show ?thesis
  proof cases
    case 1
    then show ?thesis by (simp add: is_digit_def)
  next
    case 2
    then show ?thesis by simp
  next
    case 3
    then show ?thesis using unsigned_text_start [of s p] by auto
  qed
qed

lemma parse_number_toString:
  assumes n: "is_number (Decimal s p)" and r: "number_end r"
  shows "parse_number (Number_toString (Decimal s p) @ r) = Some (JNum (Decimal s p), r)"
proof -
  have canon: "Number_value s p = Decimal s p" using n by simp
  consider (zero) "s = 0" | (neg) "s < 0" | (pos) "0 < s" by linarith
  then show ?thesis
  proof cases
    case zero
    have p0: "p = 0" using canon zero by (simp add: Number_value_def)
    have d0: "\<forall>c \<in> set ''0''. is_digit c" by (simp add: is_digit_def)
    have de: "digits_end r" using r by (rule number_end_digits_end)
    have "parse_unsigned (''0'' @ r) = Some ((0, 0), r)"
      by (simp add: parse_unsigned_def Let_def is_digit_def takeWhile_end [OF de]
          dropWhile_end [OF de] parse_fraction_none [OF disjI1 [OF r]] parse_exponent_none [OF r]
          int_of_digits_def digit_val_def)
    then show ?thesis using zero p0 by (simp add: parse_number_def Number_value_def)
  next
    case pos
    obtain t q where u: "parse_unsigned (unsigned_text s p @ r) = Some ((t, q), r)"
      "(t, q) = (s, p) \<or> (0 \<le> p \<and> (t, q) = (s * 10 ^ nat p, 0))"
      using parse_unsigned_text [OF pos r] by blast
    have v: "Number_value t q = Decimal s p"
      using u(2) canon Number_value_zeros [of p s] by auto
    obtain c cs where st: "unsigned_text s p = c # cs" "is_digit c"
      using unsigned_text_start [OF pos] by blast
    have "c \<noteq> CHR ''-''" using st(2) by (auto simp: is_digit_def)
    then show ?thesis using pos u(1) v st(1) by (simp add: parse_number_def)
  next
    case neg
    then have pos: "0 < - s" by simp
    obtain t q where u: "parse_unsigned (unsigned_text (- s) p @ r) = Some ((t, q), r)"
      "(t, q) = (- s, p) \<or> (0 \<le> p \<and> (t, q) = (- s * 10 ^ nat p, 0))"
      using parse_unsigned_text [OF pos r] by blast
    have v: "Number_value (- t) q = Decimal s p"
      using u(2) canon Number_value_zeros [of p s] by auto
    show ?thesis using neg u(1) v by (simp add: parse_number_def)
  qed
qed

lemma hex_val_hex_char: "d < 16 \<Longrightarrow> hex_val (hex_char d) = Some d"
  by (auto simp: hex_val_def hex_char_def Let_def)

lemma parse_string_body_escape:
  "parse_string_body (escape_char c @ cs) =
     map_option (\<lambda>(s, r). (c # s, r)) (parse_string_body cs)"
proof -
  consider (q) "c = dquote" | (b) "c = backslash"
    | (ctl) "c \<noteq> dquote" "c \<noteq> backslash" "(of_char c :: nat) < 32"
    | (plain) "c \<noteq> dquote" "c \<noteq> backslash" "\<not> (of_char c :: nat) < 32"
    by blast
  then show ?thesis
  proof cases
    case q
    then show ?thesis by (simp add: escape_char_def dquote_def backslash_def)
  next
    case b
    then show ?thesis by (simp add: escape_char_def dquote_def backslash_def)
  next
    case ctl
    let ?n = "of_char c :: nat"
    have h0: "hex_val (CHR ''0'') = Some 0" by (simp add: hex_val_def)
    have h1: "hex_val (hex_char (?n div 16)) = Some (?n div 16)"
      using ctl(3) by (intro hex_val_hex_char) simp
    have h2: "hex_val (hex_char (?n mod 16)) = Some (?n mod 16)"
      by (intro hex_val_hex_char) simp
    have u: "hex4 (CHR ''0'') (CHR ''0'') (hex_char (?n div 16)) (hex_char (?n mod 16)) = Some ?n"
      by (simp add: hex4_def h0 h1 h2)
    have e: "utf8_encode ?n = [c]" using ctl(3) by (simp add: utf8_encode_def)
    show ?thesis
      using ctl
      by (simp add: escape_char_def dquote_def backslash_def u e)
  next
    case plain
    then show ?thesis by (simp add: escape_char_def)
  qed
qed

lemma parse_string_body_concat:
  "parse_string_body (concat (map escape_char s) @ dquote # r) = Some (s, r)"
proof (induction s)
  case Nil
  show ?case by simp
next
  case (Cons c s)
  have "parse_string_body (concat (map escape_char (c # s)) @ dquote # r) =
        parse_string_body (escape_char c @ (concat (map escape_char s) @ dquote # r))"
    by simp
  also have "\<dots> = Some (c # s, r)"
    by (simp only: parse_string_body_escape Cons.IH) simp
  finally show ?case .
qed

lemma digit_value_start: "is_digit c \<Longrightarrow> value_start c"
  by (auto simp: is_digit_def value_start_def is_ws_def)

lemma stringify_start: "\<exists>c cs. JSON_stringify v = c # cs \<and> value_start c"
proof (cases v)
  case (JNum n)
  show ?thesis
  proof (cases n)
    case (Decimal s p)
    obtain c cs where "Number_toString (Decimal s p) = c # cs" "c = CHR ''-'' \<or> is_digit c"
      using Number_toString_start by blast
    moreover have "value_start (CHR ''-'')" by (simp add: value_start_def is_ws_def)
    ultimately show ?thesis using JNum Decimal digit_value_start by auto
  qed (simp_all add: JNum value_start_def is_ws_def)
qed (auto simp: value_start_def is_ws_def string_literal_def dquote_def)

lemma skip_ws_start: "value_start c \<Longrightarrow> skip_ws (c # cs) = c # cs"
  by (simp add: skip_ws_def value_start_def)

lemma skip_ws_stringify: "skip_ws (JSON_stringify v @ r) = JSON_stringify v @ r"
  using stringify_start [of v] by (auto simp: skip_ws_start)

lemma skip_ws_close [simp]:
  "skip_ws (CHR '']'' # r) = CHR '']'' # r"
  "skip_ws (CHR ''}'' # r) = CHR ''}'' # r"
  "skip_ws (CHR '','' # r) = CHR '','' # r"
  "skip_ws (CHR '':'' # r) = CHR '':'' # r"
  "skip_ws (dquote # r) = dquote # r"
  by (simp_all add: skip_ws_def is_ws_def dquote_def)

lemma number_end_simps [simp]:
  "number_end []" "number_end (CHR '']'' # r)" "number_end (CHR ''}'' # r)" "number_end (CHR '','' # r)"
  by (simp_all add: number_end_def)

lemma parse_elements_commas:
  assumes "\<And>v f r. v \<in> set vs \<Longrightarrow> length (JSON_stringify v) < f \<Longrightarrow> number_end r \<Longrightarrow>
             parse_value f (JSON_stringify v @ r) = Some (v, r)"
    and "vs \<noteq> []"
    and "length (commas (map JSON_stringify vs)) + 2 \<le> f"
  shows "parse_elements f (commas (map JSON_stringify vs) @ CHR '']'' # r) = Some (vs, r)"
  using assms
proof (induction vs arbitrary: f)
  case Nil
  then show ?case by simp
next
  case (Cons v ws)
  obtain m where f: "f = Suc m" using Cons.prems(3) by (cases f) auto
  show ?case
  proof (cases ws)
    case Nil
    have "parse_value m (JSON_stringify v @ CHR '']'' # r) = Some (v, CHR '']'' # r)"
      using Cons.prems(3) f Nil by (intro Cons.prems(1)) auto
    then show ?thesis using Nil f by simp
  next
    case (Cons w ws')
    let ?rest = "commas (map JSON_stringify ws) @ CHR '']'' # r"
    have pv: "parse_value m (JSON_stringify v @ CHR '','' # ?rest) = Some (v, CHR '','' # ?rest)"
      using Cons.prems(3) f Cons by (intro Cons.prems(1)) auto
    have pe: "parse_elements m ?rest = Some (ws, r)"
    proof (rule Cons.IH)
      show "ws \<noteq> []" using Cons by simp
      show "length (commas (map JSON_stringify ws)) + 2 \<le> m"
        using Cons.prems(3) f Cons by simp
      show "\<And>v f r. v \<in> set ws \<Longrightarrow> length (JSON_stringify v) < f \<Longrightarrow> number_end r \<Longrightarrow>
             parse_value f (JSON_stringify v @ r) = Some (v, r)"
        using Cons.prems(1) by simp
    qed
    show ?thesis using Cons f pv pe by simp
  qed
qed

lemma parse_members_commas:
  assumes "\<And>m f r. m \<in> set ms \<Longrightarrow> length (JSON_stringify (snd m)) < f \<Longrightarrow> number_end r \<Longrightarrow>
             parse_value f (JSON_stringify (snd m) @ r) = Some (snd m, r)"
    and "ms \<noteq> []"
    and "length (commas (map member_text ms)) + 2 \<le> f"
  shows "parse_members f (commas (map member_text ms) @ CHR ''}'' # r) = Some (ms, r)"
  using assms
proof (induction ms arbitrary: f)
  case Nil
  then show ?case by simp
next
  case (Cons kv ws)
  obtain k v where kv: "kv = (k, v)" by (cases kv)
  obtain m where f: "f = Suc m" using Cons.prems(3) by (cases f) auto
  have key: "\<And>t. parse_string_body (concat (map escape_char k) @ dquote # t) = Some (k, t)"
    by (rule parse_string_body_concat)
  show ?case
  proof (cases ws)
    case Nil
    have "parse_value m (JSON_stringify (snd kv) @ CHR ''}'' # r) = Some (snd kv, CHR ''}'' # r)"
      using Cons.prems(3) f Nil by (intro Cons.prems(1)) auto
    then show ?thesis using Nil f kv key by (simp add: string_literal_def)
  next
    case (Cons w ws')
    let ?rest = "commas (map member_text ws) @ CHR ''}'' # r"
    have pv: "parse_value m (JSON_stringify (snd kv) @ CHR '','' # ?rest) = Some (snd kv, CHR '','' # ?rest)"
      using Cons.prems(3) f Cons by (intro Cons.prems(1)) auto
    have pe: "parse_members m ?rest = Some (ws, r)"
    proof (rule Cons.IH)
      show "ws \<noteq> []" using Cons by simp
      show "length (commas (map member_text ws)) + 2 \<le> m"
        using Cons.prems(3) f Cons by simp
      show "\<And>m f r. m \<in> set ws \<Longrightarrow> length (JSON_stringify (snd m)) < f \<Longrightarrow> number_end r \<Longrightarrow>
             parse_value f (JSON_stringify (snd m) @ r) = Some (snd m, r)"
        using Cons.prems(1) by simp
    qed
    show ?thesis using Cons f kv key pv pe by (simp add: string_literal_def)
  qed
qed

lemma obj_insert_end:
  "\<forall>m \<in> set a. key_before (fst m) k \<Longrightarrow> obj_insert k v a = a @ [(k, v)]"
  by (induction a) auto

lemma sorted_wrt_append_cons:
  "sorted_wrt P (xs @ y # ys) \<Longrightarrow> \<forall>x \<in> set xs. P x y"
  by (simp add: sorted_wrt_append)

lemma obj_spread_ordered: "js_ordered (a @ ms) \<Longrightarrow> obj_spread a ms = a @ ms"
proof (induction ms arbitrary: a)
  case Nil
  show ?case by (simp add: obj_spread_def)
next
  case (Cons kv ms)
  have new: "\<not> obj_has a (fst kv)" using Cons.prems by (auto simp: js_ordered_def obj_has_def)
  have "sorted_wrt key_before (map fst a @ fst kv # map fst ms)"
    using Cons.prems by (simp add: js_ordered_def)
  then have "\<forall>x \<in> set (map fst a). key_before x (fst kv)"
    by (rule sorted_wrt_append_cons)
  then have "obj_insert (fst kv) (snd kv) a = a @ [kv]"
    using obj_insert_end [of a "fst kv" "snd kv"] by simp
  then have u: "obj_set (fst kv) (snd kv) a = a @ [kv]"
    using new by (simp add: obj_set_def)
  have "obj_spread a (kv # ms) = obj_spread (a @ [kv]) ms"
    by (simp add: obj_spread_def u)
  also have "\<dots> = (a @ [kv]) @ ms" using Cons.prems by (intro Cons.IH) simp
  finally show ?case by simp
qed

lemma wf_json_not_builtin: "wf_json v \<Longrightarrow> \<not> is_builtin v"
  by (cases v) simp_all

lemma members_plain:
  "\<forall>m \<in> set ms. \<not> is_builtin (snd m) \<Longrightarrow>
     concat (map (\<lambda>m. if is_builtin (snd m) then [] else [member_text m]) ms) = map member_text ms"
  by (induction ms) simp_all

lemma commas_start:
  "xs \<noteq> [] \<Longrightarrow> hd xs = c # cs \<Longrightarrow> \<exists>cs'. commas xs = c # cs'"
  by (cases xs rule: commas.cases) auto

lemma parse_value_stringify:
  "wf_json v \<Longrightarrow> length (JSON_stringify v) < f \<Longrightarrow> number_end r \<Longrightarrow>
     parse_value f (JSON_stringify v @ r) = Some (v, r)"
proof (induction v arbitrary: f r)
  case JNull
  then obtain n where "f = Suc n" by (cases f) auto
  then show ?case by (simp add: skip_ws_def is_ws_def)
next
  case (JBool b)
  then obtain n where "f = Suc n" by (cases f) auto
  then show ?case by (simp add: skip_ws_def is_ws_def)
next
  case (JNum x)
  then obtain n where f: "f = Suc n" by (cases f) auto
  obtain s p where x: "x = Decimal s p" "is_number (Decimal s p)"
    using JNum.prems(1) by (cases x) simp_all
  obtain c cs where s: "Number_toString (Decimal s p) = c # cs" "c = CHR ''-'' \<or> is_digit c"
    using Number_toString_start by blast
  have ws: "skip_ws (c # cs @ r) = c # cs @ r"
    using s(2) by (auto simp: skip_ws_def is_ws_def is_digit_def)
  have nk: "c \<noteq> CHR ''n''" "c \<noteq> CHR ''t''" "c \<noteq> CHR ''f''" "c \<noteq> dquote" "c \<noteq> CHR ''[''" "c \<noteq> CHR ''{''"
    using s(2) by (auto simp: is_digit_def dquote_def)
  have "parse_number (c # cs @ r) = Some (JNum (Decimal s p), r)"
    using parse_number_toString [OF x(2) JNum.prems(3)] s(1) by simp
  then show ?case using f s(1) ws nk x(1) by simp
next
  case (JStr s)
  then obtain n where f: "f = Suc n" by (cases f) auto
  have nk: "dquote \<noteq> CHR ''n''" "dquote \<noteq> CHR ''t''" "dquote \<noteq> CHR ''f''"
    by (simp_all add: dquote_def)
  show ?case using f nk by (simp add: string_literal_def parse_string_body_concat)
next
  case (JArr vs)
  then obtain n where f: "f = Suc n" by (cases f) auto
  show ?case
  proof (cases "vs = []")
    case True
    then show ?thesis using f by (simp add: skip_ws_def is_ws_def dquote_def)
  next
    case False
    let ?body = "commas (map JSON_stringify vs) @ CHR '']'' # r"
    obtain c cs where h: "JSON_stringify (hd vs) = c # cs" "value_start c"
      using stringify_start by blast
    obtain cs' where st: "commas (map JSON_stringify vs) = c # cs'"
      using commas_start [of "map JSON_stringify vs" c cs] False h(1) by (auto simp: hd_map)
    have ws: "skip_ws ?body = c # cs' @ CHR '']'' # r"
      using st h(2) by (simp add: skip_ws_start)
    have nc: "c \<noteq> CHR '']''" using h(2) by (simp add: value_start_def)
    have pe: "parse_elements n ?body = Some (vs, r)"
    proof (rule parse_elements_commas)
      show "vs \<noteq> []" by fact
      show "length (commas (map JSON_stringify vs)) + 2 \<le> n"
        using JArr.prems(2) f by simp
      show "\<And>v f r. v \<in> set vs \<Longrightarrow> length (JSON_stringify v) < f \<Longrightarrow> number_end r \<Longrightarrow>
             parse_value f (JSON_stringify v @ r) = Some (v, r)"
        using JArr.IH JArr.prems(1) by simp
    qed
    have "parse_value (Suc n) (CHR ''['' # ?body) = Some (JArr vs, r)"
      using ws nc pe by (simp add: skip_ws_def is_ws_def dquote_def)
    then show ?thesis using f by simp
  qed
next
  case (JObj ms)
  then obtain n where f: "f = Suc n" by (cases f) auto
  have "\<forall>m \<in> set ms. \<not> is_builtin (snd m)"
    using JObj.prems(1) wf_json_not_builtin by auto
  then have mp: "concat (map (\<lambda>m. if is_builtin (snd m) then [] else [member_text m]) ms) =
                 map member_text ms"
    by (rule members_plain)
  have tx: "JSON_stringify (JObj ms) = CHR ''{'' # commas (map member_text ms) @ ''}''"
    by (simp only: JSON_stringify.simps mp)
  show ?case
  proof (cases "ms = []")
    case True
    then show ?thesis using f by (simp add: skip_ws_def is_ws_def dquote_def obj_spread_def)
  next
    case False
    let ?body = "commas (map member_text ms) @ CHR ''}'' # r"
    have "\<exists>cs. member_text (hd ms) = dquote # cs" by (simp add: string_literal_def)
    then obtain cs where h: "hd (map member_text ms) = dquote # cs"
      using False by (auto simp: hd_map)
    obtain cs' where st: "commas (map member_text ms) = dquote # cs'"
      using commas_start [of "map member_text ms" dquote cs] False h by auto
    have ws: "skip_ws ?body = dquote # cs' @ CHR ''}'' # r"
      using st by simp
    have nc: "dquote \<noteq> CHR ''}''" by (simp add: dquote_def)
    have pe: "parse_members n ?body = Some (ms, r)"
    proof (rule parse_members_commas)
      show "ms \<noteq> []" by fact
      show "length (commas (map member_text ms)) + 2 \<le> n"
        using JObj.prems(2) f by (simp add: tx del: JSON_stringify.simps)
      show "\<And>m f r. m \<in> set ms \<Longrightarrow> length (JSON_stringify (snd m)) < f \<Longrightarrow> number_end r \<Longrightarrow>
             parse_value f (JSON_stringify (snd m) @ r) = Some (snd m, r)"
      proof -
        fix m f r
        assume m: "m \<in> set ms" and l: "length (JSON_stringify (snd m)) < f" and e: "number_end r"
        have "snd m \<in> Basic_BNFs.snds m" by (cases m) simp
        moreover have "wf_json (snd m)" using JObj.prems(1) m by simp
        ultimately show "parse_value f (JSON_stringify (snd m) @ r) = Some (snd m, r)"
          using JObj.IH m l e by blast
      qed
    qed
    have sp: "obj_spread [] ms = ms"
      using JObj.prems(1) obj_spread_ordered [of "[]" ms] by simp
    have "parse_value (Suc n) (CHR ''{'' # ?body) = Some (JObj ms, r)"
      using ws nc pe sp by (simp add: skip_ws_def is_ws_def dquote_def)
    then show ?thesis using f by (simp add: tx del: JSON_stringify.simps)
  qed
next
  case (JBuiltin g)
  then show ?case by simp
qed

theorem JSON_parse_stringify: "wf_json v \<Longrightarrow> JSON_parse (JSON_stringify v) = Some v"
  using parse_value_stringify [of v "length (JSON_stringify v) + 1" "[]"]
  by (simp add: JSON_parse_def skip_ws_def)

section \<open>JavaScript objects: the order of the keys\<close>

lemma digit_val_nonneg: "is_digit c \<Longrightarrow> 0 \<le> digit_val c \<and> digit_val c < 10"
  by (auto simp: is_digit_def digit_val_def)

lemma digit_char_digit_val: "is_digit c \<Longrightarrow> digit_char (digit_val c) = c"
proof -
  assume c: "is_digit c"
  then have "48 + digit_val c = of_char c" "(of_char c :: int) < 256"
    by (auto simp: digit_val_def is_digit_def)
  then show ?thesis by (simp add: digit_char_def)
qed

lemma digit_val_zero: "is_digit c \<Longrightarrow> (digit_val c = 0) = (c = CHR ''0'')"
proof -
  assume c: "is_digit c"
  have "(digit_val c = 0) = ((of_char c :: int) = of_char (CHR ''0''))"
    by (simp add: digit_val_def)
  also have "\<dots> = (c = CHR ''0'')" by (simp only: of_char_eq_iff)
  finally show ?thesis .
qed

lemma int_of_digits_nonneg: "\<forall>c \<in> set ds. is_digit c \<Longrightarrow> 0 \<le> int_of_digits ds"
proof (induction ds rule: rev_induct)
  case Nil
  show ?case by (simp add: int_of_digits_def)
next
  case (snoc c ds)
  then show ?case using digit_val_nonneg [of c] by (simp add: int_of_digits_snoc)
qed

lemma int_of_digits_pos:
  "\<forall>c \<in> set ds. is_digit c \<Longrightarrow> ds \<noteq> [] \<Longrightarrow> hd ds \<noteq> CHR ''0'' \<Longrightarrow> 0 < int_of_digits ds"
proof (induction ds rule: rev_induct)
  case Nil
  then show ?case by simp
next
  case (snoc c ds)
  have c: "is_digit c" using snoc.prems(1) by simp
  show ?case
  proof (cases "ds = []")
    case True
    then have "c \<noteq> CHR ''0''" using snoc.prems(3) by simp
    then have "digit_val c \<noteq> 0" using digit_val_zero [OF c] by simp
    then show ?thesis using True digit_val_nonneg [OF c] by (simp add: int_of_digits_def)
  next
    case False
    then have "0 < int_of_digits ds" using snoc by simp
    then show ?thesis using digit_val_nonneg [OF c] by (simp add: int_of_digits_snoc)
  qed
qed

text \<open>A canonical numeral is the decimal of its value.\<close>

lemma decimal_int_of_digits:
  "\<forall>c \<in> set ds. is_digit c \<Longrightarrow> ds \<noteq> [] \<Longrightarrow> (hd ds = CHR ''0'' \<longrightarrow> length ds = 1) \<Longrightarrow>
     decimal (int_of_digits ds) = ds"
proof (induction ds rule: rev_induct)
  case Nil
  then show ?case by simp
next
  case (snoc c ds)
  have c: "is_digit c" using snoc.prems(1) by simp
  note v = digit_val_nonneg [OF c]
  show ?case
  proof (cases "ds = []")
    case True
    then have "int_of_digits (ds @ [c]) = digit_val c" by (simp add: int_of_digits_def)
    then show ?thesis
      using True v by (subst decimal.simps) (simp add: digit_char_digit_val [OF c])
  next
    case False
    then have h: "hd ds \<noteq> CHR ''0''" using snoc.prems(3) by auto
    have pos: "0 < int_of_digits ds" using snoc.prems(1) False h by (intro int_of_digits_pos) simp_all
    have ih: "decimal (int_of_digits ds) = ds" using snoc False h by simp
    let ?n = "10 * int_of_digits ds + digit_val c"
    have "\<not> ?n < 10" using pos v by simp
    moreover have "?n div 10 = int_of_digits ds" "?n mod 10 = digit_val c" using v by simp_all
    ultimately have "decimal ?n = ds @ [c]"
      by (subst decimal.simps) (simp add: ih digit_char_digit_val [OF c])
    then show ?thesis by (simp add: int_of_digits_snoc)
  qed
qed

lemma array_index_inj:
  assumes "is_array_index a" "is_array_index b" "int_of_digits a = int_of_digits b"
  shows "a = b"
proof -
  have canon: "decimal (int_of_digits k) = k" if "is_array_index k" for k
  proof -
    from that have "k \<noteq> [] \<and> list_all is_digit k \<and> (hd k = CHR ''0'' \<longrightarrow> length k = 1) \<and>
                    int_of_digits k \<le> 4294967294"
      unfolding is_array_index_def .
    then have "\<forall>c \<in> set k. is_digit c" "k \<noteq> []" "hd k = CHR ''0'' \<longrightarrow> length k = 1"
      unfolding list_all_iff by blast+
    then show ?thesis by (rule decimal_int_of_digits)
  qed
  have "a = decimal (int_of_digits a)" using canon [OF assms(1)] by simp
  also have "\<dots> = decimal (int_of_digits b)" by (simp only: assms(3))
  also have "\<dots> = b" by (rule canon [OF assms(2)])
  finally show ?thesis .
qed

lemma set_obj_insert: "set (obj_insert k v obj) = insert (k, v) (set obj)"
  by (induction obj) auto

lemma obj_insert_sorted:
  assumes "sorted_wrt key_before (map fst obj)" "k \<notin> fst ` set obj"
  shows "sorted_wrt key_before (map fst (obj_insert k v obj))"
  using assms
proof (induction obj)
  case Nil
  show ?case by simp
next
  case (Cons m ms)
  show ?case
  proof (cases "key_before (fst m) k")
    case True
    have "sorted_wrt key_before (map fst (obj_insert k v ms))" using Cons by simp
    moreover have "\<forall>x \<in> set (obj_insert k v ms). key_before (fst m) (fst x)"
      using True Cons.prems(1) by (auto simp: set_obj_insert)
    ultimately show ?thesis using True by simp
  next
    case False
    then have k: "is_array_index k"
      and m: "is_array_index (fst m) \<longrightarrow> \<not> int_of_digits (fst m) < int_of_digits k"
      by (auto simp: key_before_def)
    have ne: "k \<noteq> fst m" using Cons.prems(2) by auto
    have km: "is_array_index (fst m) \<longrightarrow> int_of_digits k < int_of_digits (fst m)"
      using k m ne array_index_inj [of k "fst m"] by (auto simp: not_less order_le_less)
    have first: "key_before k (fst m)" using k km by (simp add: key_before_def)
    have rest: "\<forall>x \<in> set ms. key_before k (fst x)"
    proof
      fix x assume x: "x \<in> set ms"
      then have "key_before (fst m) (fst x)" using Cons.prems(1) by auto
      then show "key_before k (fst x)" using k km by (auto simp: key_before_def)
    qed
    show ?thesis using False first rest Cons.prems(1) by simp
  qed
qed

lemma js_ordered_obj_set: "js_ordered obj \<Longrightarrow> js_ordered (obj_set k v obj)"
proof (cases "obj_has obj k")
  case True
  assume "js_ordered obj"
  then show ?thesis using True by (simp add: obj_set_def js_ordered_def obj_has_def update_keys)
next
  case False
  assume o: "js_ordered obj"
  have "distinct (map fst (obj_insert k v obj))"
    using o False
    by (induction obj) (auto simp: js_ordered_def obj_has_def set_obj_insert image_iff)
  then show ?thesis
    using o False obj_insert_sorted [of obj k v] by (simp add: obj_set_def js_ordered_def obj_has_def)
qed

lemma js_ordered_delete: "js_ordered obj \<Longrightarrow> js_ordered (AList.delete k obj)"
proof -
  assume o: "js_ordered obj"
  have "map fst (AList.delete k obj) = filter (\<lambda>x. x \<noteq> k) (map fst obj)"
    by (induction obj) auto
  then show ?thesis using o by (simp add: js_ordered_def sorted_wrt_filter)
qed

lemma js_ordered_obj_spread: "js_ordered a \<Longrightarrow> js_ordered (obj_spread a b)"
  unfolding obj_spread_def by (induction b arbitrary: a) (simp_all add: js_ordered_obj_set)

lemma map_of_obj_insert:
  "k \<notin> fst ` set obj \<Longrightarrow> map_of (obj_insert k v obj) = (map_of obj)(k \<mapsto> v)"
  by (induction obj) (auto simp: fun_eq_iff)

lemma map_of_obj_set: "map_of (obj_set k v obj) = (map_of obj)(k \<mapsto> v)"
  by (simp add: obj_set_def obj_has_def map_of_obj_insert update_conv')

lemma obj_get_obj_set: "obj_get (obj_set k v obj) k' = (if k' = k then Some v else obj_get obj k')"
  by (simp add: obj_get_def map_of_obj_set)

lemma obj_has_map_of: "obj_has obj k = (map_of obj k \<noteq> None)"
  by (simp add: obj_has_def map_of_eq_None_iff)

lemma obj_has_obj_set: "obj_has (obj_set k v obj) k' = (k' = k \<or> obj_has obj k')"
  by (simp add: obj_has_map_of map_of_obj_set)

lemma values_obj_set: "snd ` set (obj_set k v obj) \<subseteq> insert v (snd ` set obj)"
proof (cases "obj_has obj k")
  case True
  have "set (AList.update k v obj) \<subseteq> insert (k, v) (set obj)"
    by (induction obj) auto
  then show ?thesis using True by (auto simp: obj_set_def)
next
  case False
  then show ?thesis by (auto simp: obj_set_def set_obj_insert)
qed

lemma values_obj_spread: "snd ` set (obj_spread a b) \<subseteq> snd ` set a \<union> snd ` set b"
  unfolding obj_spread_def
proof (induction b arbitrary: a)
  case Nil
  show ?case by simp
next
  case (Cons kv b)
  have "snd ` set (foldl (\<lambda>acc kv. obj_set (fst kv) (snd kv) acc) (obj_set (fst kv) (snd kv) a) b)
          \<subseteq> snd ` set (obj_set (fst kv) (snd kv) a) \<union> snd ` set b"
    by (rule Cons.IH)
  then show ?case using values_obj_set [of "fst kv" "snd kv" a] by auto
qed

lemma obj_get_obj_spread:
  "distinct (map fst b) \<Longrightarrow>
     obj_get (obj_spread a b) k = (case map_of b k of Some v \<Rightarrow> Some v | None \<Rightarrow> obj_get a k)"
  unfolding obj_spread_def
proof (induction b arbitrary: a)
  case Nil
  show ?case by simp
next
  case (Cons kv b)
  have d: "distinct (map fst b)" "map_of b (fst kv) = None"
    using Cons.prems by (auto simp: map_of_eq_None_iff)
  show ?case
    using Cons.IH [OF d(1), of "obj_set (fst kv) (snd kv) a"] d(2)
    by (auto simp: obj_get_obj_set split: option.splits)
qed

section \<open>The wire codec: encoding and decoding\<close>

lemma utf8_string_bytes: "utf8_string (utf8_bytes s) = s"
proof -
  have "char_of (unat (word_of_nat (of_char c) :: byte)) = c" for c
  proof -
    have "unat (word_of_nat (of_char c) :: byte) = of_char c mod 256"
      by (simp add: unat_of_nat)
    then show ?thesis by simp
  qed
  then show ?thesis by (simp add: utf8_string_def utf8_bytes_def comp_def)
qed

lemma length_utf8_bytes: "length (utf8_bytes s) = length s"
  by (simp add: utf8_bytes_def)

lemma uint_byte: "uint (word_of_int v :: byte) = v mod 256"
  by (simp add: uint_word_of_int)

lemma bytes16: "0 \<le> v \<Longrightarrow> v \<le> 65535 \<Longrightarrow> (v div 256) mod 256 * 256 + v mod 256 = (v::int)"
  by (simp add: zmod_eq_0_iff pos_imp_zdiv_nonneg_iff div_pos_pos_trivial)

lemma bytes32:
  assumes "0 \<le> v" "v \<le> 4294967295"
  shows "(v div 16777216) mod 256 * 16777216 + (v div 65536) mod 256 * 65536
        + (v div 256) mod 256 * 256 + v mod 256 = (v::int)"
proof -
  have d1: "v div 65536 = (v div 256) div 256" by (simp add: zdiv_zmult2_eq)
  have d2: "v div 16777216 = ((v div 256) div 256) div 256" by (simp add: zdiv_zmult2_eq)
  have small: "((v div 256) div 256) div 256 < 256" using assms by simp
  have nn: "0 \<le> ((v div 256) div 256) div 256" using assms by simp
  have m: "(((v div 256) div 256) div 256) mod 256 = ((v div 256) div 256) div 256"
    using small nn by simp
  show ?thesis
    unfolding d1 d2 m
    using div_mult_mod_eq [of v 256] div_mult_mod_eq [of "v div 256" 256]
      div_mult_mod_eq [of "v div 256 div 256" 256]
    by linarith
qed

lemma read16_write16:
  assumes "writeUInt16BE v = Inr bs"
  shows "readUInt16BE (pre @ bs @ post) (length pre) = Inr v"
proof -
  from assms have r: "0 \<le> v" "v \<le> 65535" and bs: "bs = [word_of_int (v div 256), word_of_int v]"
    by (auto simp: writeUInt16BE_def split: if_splits)
  show ?thesis
    using bytes16 [OF r] by (simp add: readUInt16BE_def bs nth_append uint_byte)
qed

lemma read32_at:
  "readUInt32BE (pre @ [a, b, c, d] @ post) (length pre) =
     Inr (uint a * 16777216 + uint b * 65536 + uint c * 256 + uint d)"
  by (simp add: readUInt32BE_def nth_append)

lemma read32_write32:
  assumes "writeUInt32BE v = Inr bs"
  shows "readUInt32BE (pre @ bs @ post) (length pre) = Inr v"
proof -
  from assms have r: "0 \<le> v" "v \<le> 4294967295"
    and bs: "bs = [word_of_int (v div 16777216), word_of_int (v div 65536),
                   word_of_int (v div 256), word_of_int v]"
    by (auto simp: writeUInt32BE_def split: if_splits)
  show ?thesis
    unfolding bs read32_at uint_byte
    by (simp only: bytes32 [OF r])
qed

lemma length_write16: "writeUInt16BE v = Inr bs \<Longrightarrow> length bs = 2"
  by (auto simp: writeUInt16BE_def split: if_splits)

lemma length_write32: "writeUInt32BE v = Inr bs \<Longrightarrow> length bs = 4"
  by (auto simp: writeUInt32BE_def split: if_splits)

text \<open>A framed datagram is read back field by field.\<close>

lemma decode_frame:
  assumes h0: "writeUInt16BE st = Inr h0" and h2: "writeUInt16BE ver = Inr h2"
    and h4: "writeUInt32BE (int (length body)) = Inr h4" and h8: "writeUInt32BE ts = Inr h8"
    and st: "st \<noteq> 0" "st \<le> 0xFF"
    and body: "JSON_parse (utf8_string body) = Some v" and s: "ensure_sender v = Some p"
  shows "decodeBinaryMessage (h0 @ h2 @ h4 @ h8 @ body) =
           Some \<lparr>msg_signalType = st, msg_version = ver, msg_timestamp = Num ts, msg_payload = p\<rparr>"
proof -
  let ?buf = "h0 @ h2 @ h4 @ h8 @ body"
  note l = length_write16 [OF h0] length_write16 [OF h2] length_write32 [OF h4] length_write32 [OF h8]
  have r0: "readUInt16BE ?buf 0 = Inr st"
    using read16_write16 [OF h0, of "[]" "h2 @ h4 @ h8 @ body"] by simp
  have r2: "readUInt16BE ?buf 2 = Inr ver"
    using read16_write16 [OF h2, of h0 "h4 @ h8 @ body"] l by simp
  have r4: "readUInt32BE ?buf 4 = Inr (int (length body))"
    using read32_write32 [OF h4, of "h0 @ h2" "h8 @ body"] l by simp
  have r8: "readUInt32BE ?buf 8 = Inr ts"
    using read32_write32 [OF h8, of "h0 @ h2 @ h4" body] l by simp
  have len: "int (length ?buf) - 12 = int (length body)" using l by simp
  have sl: "take (length body) (drop 12 ?buf) = body" using l by simp
  show ?thesis
    unfolding decodeBinaryMessage_def r0 r2 r4 r8 len
    using st body s sl by simp
qed

lemma write16_ok: "0 \<le> v \<Longrightarrow> v \<le> 65535 \<Longrightarrow> \<exists>bs. writeUInt16BE v = Inr bs"
  by (simp add: writeUInt16BE_def)

lemma write32_ok: "0 \<le> v \<Longrightarrow> v \<le> 4294967295 \<Longrightarrow> \<exists>bs. writeUInt32BE v = Inr bs"
  by (simp add: writeUInt32BE_def)

lemma encodeMessage_frame:
  assumes "writeUInt16BE st = Inr h0" "writeUInt16BE PROTOCOL_VERSION = Inr h2"
    and "writeUInt32BE (int (length (utf8_bytes (JSON_stringify (JObj (obj_spread [(''sender'', JStr sender)] payload)))))) = Inr h4"
    and "writeUInt32BE (now div 1000) = Inr h8"
  shows "encodeMessage st sender payload now =
           Inr (h0 @ h2 @ h4 @ h8 @ utf8_bytes (JSON_stringify (JObj (obj_spread [(''sender'', JStr sender)] payload))))"
  unfolding encodeMessage_def Let_def using assms by (simp only: sum.case)

lemma obj_has_obj_spread: "obj_has (obj_spread a b) k = (obj_has a k \<or> obj_has b k)"
  unfolding obj_spread_def
proof (induction b arbitrary: a)
  case Nil
  show ?case by (simp add: obj_has_def)
next
  case (Cons kv b)
  show ?case
    using Cons.IH [of "obj_set (fst kv) (snd kv) a"]
    by (auto simp: obj_has_obj_set) (auto simp: obj_has_def)
qed

text \<open>
  Claim C8, as amended.  For every signal type in \<open>(0, 255]\<close>, every non-empty sender
  and every payload of JSON data that has no \<open>sender\<close> key of its own,
  \<open>encodeMessage\<close> returns a datagram (the clock and the body fit their 32-bit header
  fields) and \<open>decodeBinaryMessage\<close> reads it back: the signal type is the encoded
  one, and the payload is the object \<open>{ sender, ...payload }\<close>, which holds the
  sender under \<open>sender\<close>, every entry of the original payload, and no other key.
\<close>

theorem encode_decode_roundtrip:
  assumes st: "0 < signalType" "signalType \<le> 255"
    and sender: "sender \<noteq> []"
    and wf: "wf_json (JObj payload)"
    and fresh: "\<not> obj_has payload ''sender''"
    and now: "0 \<le> now" "now div 1000 \<le> 4294967295"
    and len: "int (length (JSON_stringify (JObj (obj_spread [(''sender'', JStr sender)] payload))))
                \<le> 4294967295"
  shows "\<exists>buf decoded.
           encodeMessage signalType sender payload now = Inr buf \<and>
           decodeBinaryMessage buf =
             Some \<lparr>msg_signalType = signalType, msg_version = PROTOCOL_VERSION,
                   msg_timestamp = Num (now div 1000), msg_payload = JObj decoded\<rparr> \<and>
           decoded = obj_spread [(''sender'', JStr sender)] payload \<and>
           obj_get decoded ''sender'' = Some (JStr sender) \<and>
           (\<forall>m \<in> set payload. obj_get decoded (fst m) = Some (snd m)) \<and>
           (\<forall>k. obj_has decoded k \<longleftrightarrow> k = ''sender'' \<or> obj_has payload k)"
proof -
  define full where "full = obj_spread [(''sender'', JStr sender)] payload"
  define body where "body = utf8_bytes (JSON_stringify (JObj full))"
  have d: "distinct (map fst payload)" using wf by (simp add: js_ordered_def)
  have none: "map_of payload ''sender'' = None"
    using fresh by (simp add: obj_has_def map_of_eq_None_iff)
  have get: "obj_get full k = (case map_of payload k of Some v \<Rightarrow> Some v
                               | None \<Rightarrow> obj_get [(''sender'', JStr sender)] k)" for k
    unfolding full_def using d by (rule obj_get_obj_spread)
  have g1: "obj_get full ''sender'' = Some (JStr sender)"
    unfolding get none by (simp add: obj_get_def)
  have g2: "\<forall>m \<in> set payload. obj_get full (fst m) = Some (snd m)"
    using d by (auto simp: get)
  have g3: "\<forall>k. obj_has full k \<longleftrightarrow> k = ''sender'' \<or> obj_has payload k"
    by (auto simp: full_def obj_has_obj_spread) (auto simp: obj_has_def)
  have ord: "js_ordered full"
    unfolding full_def by (rule js_ordered_obj_spread) (simp add: js_ordered_def)
  have vals: "\<forall>m \<in> set full. wf_json (snd m)"
  proof
    fix m assume "m \<in> set full"
    then have "snd m \<in> snd ` set [(''sender'', JStr sender)] \<union> snd ` set payload"
      using values_obj_spread [of "[(''sender'', JStr sender)]" payload] by (auto simp: full_def)
    then show "wf_json (snd m)" using wf by auto
  qed
  have wff: "wf_json (JObj full)" using ord vals by simp
  obtain h0 where h0: "writeUInt16BE signalType = Inr h0"
    using st write16_ok [of signalType] by auto
  obtain h2 where h2: "writeUInt16BE PROTOCOL_VERSION = Inr h2"
    using write16_ok [of PROTOCOL_VERSION] by (auto simp: PROTOCOL_VERSION_def)
  have "int (length body) \<le> 4294967295"
    using len unfolding body_def length_utf8_bytes full_def .
  then obtain h4 where h4: "writeUInt32BE (int (length body)) = Inr h4"
    using write32_ok [of "int (length body)"] by auto
  have "0 \<le> now div 1000" using now(1) by (simp add: pos_imp_zdiv_nonneg_iff)
  then obtain h8 where h8: "writeUInt32BE (now div 1000) = Inr h8"
    using now(2) write32_ok [of "now div 1000"] by auto
  have enc: "encodeMessage signalType sender payload now = Inr (h0 @ h2 @ h4 @ h8 @ body)"
    using encodeMessage_frame [of signalType h0 h2 sender payload h4 now h8] h0 h2 h4 h8
    unfolding full_def [symmetric] body_def by blast
  have parse: "JSON_parse (utf8_string body) = Some (JObj full)"
    unfolding body_def by (simp only: utf8_string_bytes JSON_parse_stringify [OF wff])
  have ens: "ensure_sender (JObj full) = Some (JObj full)"
    using sender by (simp add: g1)
  have st': "signalType \<noteq> 0" "signalType \<le> 0xFF" using st by auto
  have "decodeBinaryMessage (h0 @ h2 @ h4 @ h8 @ body) =
          Some \<lparr>msg_signalType = signalType, msg_version = PROTOCOL_VERSION,
                msg_timestamp = Num (now div 1000), msg_payload = JObj full\<rparr>"
    by (rule decode_frame [OF h0 h2 h4 h8 st' parse ens])
  with enc g1 g2 g3 show ?thesis unfolding full_def by blast
qed

text \<open>
  The theorem at signal type 0x50, sender \<open>synapse-relay\<close> and the payload
  \<open>{"x": 1.5, "7": [true]}\<close>, whose key \<open>7\<close> is listed before \<open>sender\<close>.
\<close>

theorem encode_decode_roundtrip_witness:
  "\<exists>buf. encodeMessage 80 ''synapse-relay''
            [(''7'', JArr [JBool True]), (''x'', JNum (Decimal 15 (- 1)))] 1700000000000 = Inr buf \<and>
     decodeBinaryMessage buf =
       Some \<lparr>msg_signalType = 80, msg_version = PROTOCOL_VERSION, msg_timestamp = Num 1700000000,
             msg_payload = JObj [(''7'', JArr [JBool True]), (''sender'', JStr ''synapse-relay''),
                                 (''x'', JNum (Decimal 15 (- 1)))]\<rparr>"
proof -
  let ?p = "[(''7'', JArr [JBool True]), (''x'', JNum (Decimal 15 (- 1)))]"
  have sp: "obj_spread [(''sender'', JStr ''synapse-relay'')] ?p =
              [(''7'', JArr [JBool True]), (''sender'', JStr ''synapse-relay''),
               (''x'', JNum (Decimal 15 (- 1)))]"
    by code_simp
  have l: "int (length (JSON_stringify (JObj (obj_spread [(''sender'', JStr ''synapse-relay'')] ?p))))
             \<le> 4294967295"
    by code_simp
  have f: "\<not> obj_has ?p ''sender''" by (simp add: obj_has_def)
  have w: "wf_json (JObj ?p)" by code_simp
  have s: "''synapse-relay'' \<noteq> []" by simp
  have t: "(1700000000000::int) div 1000 = 1700000000" by simp
  have "\<exists>buf decoded.
           encodeMessage 80 ''synapse-relay'' ?p 1700000000000 = Inr buf \<and>
           decodeBinaryMessage buf =
             Some \<lparr>msg_signalType = 80, msg_version = PROTOCOL_VERSION,
                   msg_timestamp = Num (1700000000000 div 1000), msg_payload = JObj decoded\<rparr> \<and>
           decoded = obj_spread [(''sender'', JStr ''synapse-relay'')] ?p \<and>
           obj_get decoded ''sender'' = Some (JStr ''synapse-relay'') \<and>
           (\<forall>m \<in> set ?p. obj_get decoded (fst m) = Some (snd m)) \<and>
           (\<forall>k. obj_has decoded k \<longleftrightarrow> k = ''sender'' \<or> obj_has ?p k)"
    by (rule encode_decode_roundtrip [OF _ _ s w f _ _ l]) simp_all
  then show ?thesis unfolding t sp by blast
qed

text \<open>
  Claim C8 as stated fails for the empty sender, which the decoder's fallback replaces by
  \<open>unknown\<close>, and for a payload with a \<open>sender\<close> key, which overwrites the injected
  sender.
\<close>

theorem encode_decode_counterexample:
  "(case encodeMessage 4 '''' [] 1700000000000 of
      Inl e \<Rightarrow> None | Inr b \<Rightarrow> map_option msg_payload (decodeBinaryMessage b)) =
     Some (JObj [(''sender'', JStr ''unknown'')]) \<and>
   (case encodeMessage 4 ''relay'' [(''sender'', JStr ''mallory'')] 1700000000000 of
      Inl e \<Rightarrow> None | Inr b \<Rightarrow> map_option msg_payload (decodeBinaryMessage b)) =
     Some (JObj [(''sender'', JStr ''mallory'')])"
  by code_simp

section \<open>The rule engine: \<open>applyTransform\<close>\<close>

lemma transform_step_null:
  "transform_step r (k, JNull) = Inr (AList.delete k (fst r), snd r)"
  by (simp add: transform_step_def)

lemma transform_step_set:
  "v \<noteq> JNull \<Longrightarrow> \<not> is_rename v \<Longrightarrow> transform_step r (k, v) = Inr (js_assign k v r)"
  by (simp add: transform_step_def)

lemma js_assign_own:
  "k \<noteq> ''__proto__'' \<or> obj_has (fst r) k \<Longrightarrow> js_assign k v r = (obj_set k v (fst r), snd r)"
  by (auto simp: js_assign_def)

lemma transform_step_plain:
  assumes "\<not> is_rename (snd e)" "fst e \<noteq> ''__proto__''"
  shows "transform_step (q, pr) e = Inr (plain_step q e, pr)"
proof (cases e)
  case (Pair k v)
  then show ?thesis
    using assms
    by (cases "v = JNull")
      (simp_all add: transform_step_null transform_step_set js_assign_own plain_step_def)
qed

lemma transform_steps_plain:
  assumes "\<forall>e \<in> set s. \<not> is_rename (snd e) \<and> fst e \<noteq> ''__proto__''"
  shows "transform_steps (q, pr) s = Inr (foldl plain_step q s, pr)"
  using assms by (induction s arbitrary: q) (simp_all add: transform_step_plain)

lemma applyTransform_plain:
  assumes "\<forall>e \<in> set s. \<not> is_rename (snd e) \<and> fst e \<noteq> ''__proto__''"
  shows "applyTransform p s = Inr (foldl plain_step p s)"
  by (simp add: applyTransform_def transform_steps_plain [OF assms])

lemma keys_obj_set: "fst ` set (obj_set k v q) = insert k (fst ` set q)"
  using obj_has_obj_set [of k v q] by (auto simp: obj_has_def)

lemma step_in_effect_id:
  assumes "in_effect e q"
  shows "plain_step q e = q"
proof (cases "snd e = JNull")
  case True
  with assms show ?thesis by (simp add: plain_step_def in_effect_def)
next
  case False
  then have m: "map_of q (fst e) = Some (snd e)" using assms by (simp add: in_effect_def)
  then have "obj_has q (fst e)" by (simp add: obj_has_map_of)
  with False m show ?thesis by (simp add: plain_step_def obj_set_def update_triv)
qed

lemma step_puts_in_effect: "in_effect e (plain_step q e)"
  by (simp add: plain_step_def in_effect_def delete_notin_dom map_of_obj_set)

lemma step_keeps_in_effect:
  assumes "fst e' \<noteq> fst e" "in_effect e q"
  shows "in_effect e (plain_step q e')"
proof (cases "snd e' = JNull")
  case True
  have sub: "fst ` set (AList.delete (fst e') q) \<subseteq> fst ` set q"
    by (auto simp: AList.delete_eq)
  have same: "map_of (AList.delete (fst e') q) (fst e) = map_of q (fst e)"
    using assms(1) by simp
  from assms(2) sub same True show ?thesis
    by (auto simp: plain_step_def in_effect_def split: if_splits)
next
  case False
  with assms show ?thesis
    by (auto simp: plain_step_def in_effect_def map_of_obj_set keys_obj_set split: if_splits)
qed

lemma fold_keeps_in_effect:
  assumes "fst e \<notin> fst ` set s" "in_effect e q"
  shows "in_effect e (foldl plain_step q s)"
  using assms
proof (induction s arbitrary: q)
  case Nil
  then show ?case by simp
next
  case (Cons e' s)
  have "in_effect e (plain_step q e')"
    using Cons.prems by (intro step_keeps_in_effect) auto
  then show ?case using Cons by simp
qed

lemma all_in_effect:
  assumes "distinct (map fst s)"
  shows "\<forall>e \<in> set s. in_effect e (foldl plain_step p s)"
  using assms
proof (induction s arbitrary: p)
  case Nil
  then show ?case by simp
next
  case (Cons e s)
  have "in_effect e (foldl plain_step (plain_step p e) s)"
    using Cons.prems by (intro fold_keeps_in_effect step_puts_in_effect) auto
  moreover have "\<forall>e' \<in> set s. in_effect e' (foldl plain_step (plain_step p e) s)"
    using Cons.prems by (intro Cons.IH) auto
  ultimately show ?case by simp
qed

lemma fold_in_effect_id:
  assumes "\<forall>e \<in> set s. in_effect e q"
  shows "foldl plain_step q s = q"
  using assms by (induction s) (simp_all add: step_in_effect_id)

text \<open>
  The laws of \<open>applyTransform\<close> apart from the key \<open>__proto__\<close>.
  \<open>applyTransform(p, {}) = p\<close>; an entry \<open>{k: v}\<close> with \<open>v\<close> neither \<open>null\<close>
  nor a rename object, and \<open>k\<close> not \<open>__proto__\<close> or an own key of \<open>p\<close>, sets key
  \<open>k\<close> to \<open>v\<close> and leaves every other key as it is; an entry \<open>{k: null}\<close> removes
  key \<open>k\<close> and leaves every other key as it is; and for a transform \<open>s\<close> with no
  rename entry and no key \<open>__proto__\<close> (its keys distinct, as the keys of an object
  are) applying \<open>s\<close> twice is applying it once.
\<close>

lemma applyTransform_laws:
  "applyTransform p [] = Inr p \<and>
   (v \<noteq> JNull \<and> \<not> is_rename v \<and> (k \<noteq> ''__proto__'' \<or> obj_has p k) \<longrightarrow>
      (\<exists>q. applyTransform p [(k, v)] = Inr q \<and>
           (\<forall>k'. obj_get q k' = (if k' = k then Some v else obj_get p k')))) \<and>
   (\<exists>q. applyTransform p [(k, JNull)] = Inr q \<and>
        (\<forall>k'. obj_get q k' = (if k' = k then None else obj_get p k'))) \<and>
   (distinct (map fst s) \<and> (\<forall>e \<in> set s. \<not> is_rename (snd e) \<and> fst e \<noteq> ''__proto__'') \<longrightarrow>
      (\<exists>q. applyTransform p s = Inr q \<and> applyTransform q s = Inr q))"
proof (intro conjI impI)
  show "applyTransform p [] = Inr p" by (simp add: applyTransform_def)
next
  assume a: "v \<noteq> JNull \<and> \<not> is_rename v \<and> (k \<noteq> ''__proto__'' \<or> obj_has p k)"
  then have "applyTransform p [(k, v)] = Inr (obj_set k v p)"
    by (simp add: applyTransform_def transform_step_set js_assign_own)
  then show "\<exists>q. applyTransform p [(k, v)] = Inr q \<and>
           (\<forall>k'. obj_get q k' = (if k' = k then Some v else obj_get p k'))"
    by (simp add: obj_get_obj_set)
next
  have "applyTransform p [(k, JNull)] = Inr (AList.delete k p)"
    by (simp add: applyTransform_def transform_step_null)
  then show "\<exists>q. applyTransform p [(k, JNull)] = Inr q \<and>
        (\<forall>k'. obj_get q k' = (if k' = k then None else obj_get p k'))"
    by (simp add: obj_get_def delete_conv')
next
  assume a: "distinct (map fst s) \<and> (\<forall>e \<in> set s. \<not> is_rename (snd e) \<and> fst e \<noteq> ''__proto__'')"
  define q where "q = foldl plain_step p s"
  have 1: "applyTransform p s = Inr q" using a by (simp add: applyTransform_plain q_def)
  have "\<forall>e \<in> set s. in_effect e q" using a all_in_effect [of s p] by (simp add: q_def)
  then have "foldl plain_step q s = q" by (rule fold_in_effect_id)
  then have 2: "applyTransform q s = Inr q" using a by (simp add: applyTransform_plain)
  from 1 2 show "\<exists>q. applyTransform p s = Inr q \<and> applyTransform q s = Inr q" by blast
qed

text \<open>
  Claim C7 at the payload \<open>{"a": 1}\<close> and the transform \<open>{"__proto__": 5}\<close>, as
  \<open>JSON.parse\<close> returns it with \<open>__proto__\<close> a key of its own: the value is neither
  \<open>null\<close> nor a rename object, and \<open>applyTransform\<close> returns the payload as it
  was.  The assignment \<open>result[key] = value\<close> has gone to the setter of
  \<open>Object.prototype\<close>, and the key \<open>__proto__\<close> is not set.
\<close>

theorem applyTransform_proto_key_not_set:
  \<open>map_option Object_entries (JSON_parse ''{"__proto__":5}'') =
     Some (Inr [(''__proto__'', JNum (Decimal 5 0))]) \<and>
   JNum (Decimal 5 0) \<noteq> JNull \<and> \<not> is_rename (JNum (Decimal 5 0)) \<and>
   applyTransform [(''a'', JNum (Decimal 1 0))] [(''__proto__'', JNum (Decimal 5 0))] =
     Inr [(''a'', JNum (Decimal 1 0))] \<and>
   obj_get [(''a'', JNum (Decimal 1 0))] ''__proto__'' = None\<close>
  by code_simp

text \<open>
  A rename looks its source up with \<open>in\<close>, which also finds what the object inherits:
  renaming from \<open>constructor\<close> stores the function \<open>Object\<close>, which
  \<open>JSON.stringify\<close> leaves out; and after \<open>__proto__\<close> has been set to an object,
  the keys of that object are found.
\<close>

lemma applyTransform_inherited_rename:
  \<open>applyTransform [(''b'', JNum (Decimal 1 0))] [(''a'', JObj [(''rename'', JStr ''constructor'')])] =
     Inr [(''b'', JNum (Decimal 1 0)), (''a'', JBuiltin ''Object'')] \<and>
   JSON_stringify (JObj [(''b'', JNum (Decimal 1 0)), (''a'', JBuiltin ''Object'')]) = ''{"b":1}'' \<and>
   applyTransform [(''b'', JNum (Decimal 1 0))]
     [(''__proto__'', JObj [(''c'', JBool True)]), (''a'', JObj [(''rename'', JStr ''c'')])] =
     Inr [(''b'', JNum (Decimal 1 0)), (''a'', JBool True)]\<close>
  by code_simp

section \<open>The delivery engine: \<open>relaySignal\<close>\<close>

lemma incrementRuleMatchCount_tables [simp]:
  "signal_buffer (incrementRuleMatchCount rid db) = signal_buffer db"
  "signal_relays (incrementRuleMatchCount rid db) = signal_relays db"
  by (simp_all add: incrementRuleMatchCount_def)

lemma fold_increment_tables:
  "signal_buffer (foldl (\<lambda>d r. incrementRuleMatchCount (rule_id r) d) db rs) = signal_buffer db \<and>
   signal_relays (foldl (\<lambda>d r. incrementRuleMatchCount (rule_id r) d) db rs) = signal_relays db"
  by (induction rs arbitrary: db) simp_all

lemma matchRules_tables:
  assumes "matchRules regex signalType sourceServer db = (rules, db1)"
  shows "signal_buffer db1 = signal_buffer db" "signal_relays db1 = signal_relays db"
  using assms fold_increment_tables by (auto simp: matchRules_def Let_def)

lemma bufferSignal_row:
  assumes "bufferSignal now bufferId signalType sourceServer targetServer payload priority DEFAULT_TTL_HOURS db = Inr db1"
  shows "\<exists>b. signal_buffer db1 = signal_buffer db @ [b] \<and> fresh_row now b \<and>
             signal_relays db1 = signal_relays db"
  using assms
  by (auto simp: bufferSignal_def insertBufferedSignal_def fresh_row_def MAX_RETRIES_def
      DEFAULT_TTL_HOURS_def split: if_splits)

lemma classify_all_rows:
  assumes "classify_all now request payload uuid xs s = (s', err)"
  shows "\<exists>new. signal_buffer (rs_db s') = signal_buffer (rs_db s) @ new \<and>
               (\<forall>b \<in> set new. fresh_row now b) \<and>
               signal_relays (rs_db s') = signal_relays (rs_db s)"
  using assms
proof (induction now request payload uuid xs s rule: classify_all.induct)
  case (1 now request payload uuid s)
  then show ?case by simp
next
  case (2 now request payload uuid i target ok rest s)
  show ?case
  proof (cases ok)
    case True
    with 2 show ?thesis by simp
  next
    case False
    note nok = this
    define s1 where "s1 = s\<lparr>rs_failed := rs_failed s @ [target]\<rparr>"
    show ?thesis
    proof (cases "req_buffer_if_offline request")
      case False
      with 2 nok show ?thesis by (simp add: Let_def)
    next
      case True
      note buf = this
      show ?thesis
      proof (cases "bufferSignal now (uuid i) (req_signal_type request) (req_source_server request)
                   target payload (req_priority request) DEFAULT_TTL_HOURS (rs_db s1)")
        case (Inl e)
        with "2.prems" nok buf have "s' = s1" by (simp add: Let_def s1_def)
        then show ?thesis by (simp add: s1_def)
      next
        case (Inr db1)
        obtain b where b: "signal_buffer db1 = signal_buffer (rs_db s) @ [b]" "fresh_row now b"
          "signal_relays db1 = signal_relays (rs_db s)"
          using bufferSignal_row [OF Inr] by (auto simp: s1_def)
        have step: "classify_all now request payload uuid rest
                 (s1\<lparr>rs_db := db1, rs_buffered := rs_buffered s1 @ [target]\<rparr>) = (s', err)"
          using "2.prems" nok buf Inr by (simp add: Let_def s1_def)
        have "\<exists>new. signal_buffer (rs_db s') =
                 signal_buffer (rs_db (s1\<lparr>rs_db := db1, rs_buffered := rs_buffered s1 @ [target]\<rparr>)) @ new \<and>
               (\<forall>b \<in> set new. fresh_row now b) \<and>
               signal_relays (rs_db s') =
                 signal_relays (rs_db (s1\<lparr>rs_db := db1, rs_buffered := rs_buffered s1 @ [target]\<rparr>))"
          using "2.IH"(2) [OF nok s1_def buf Inr step] .
        then obtain new where new: "signal_buffer (rs_db s') = signal_buffer db1 @ new"
          "\<forall>b \<in> set new. fresh_row now b" "signal_relays (rs_db s') = signal_relays db1"
          by auto
        have "signal_buffer (rs_db s') = signal_buffer (rs_db s) @ (b # new)"
          using new(1) b(1) by simp
        moreover have "\<forall>x \<in> set (b # new). fresh_row now x" using new(2) b(2) by simp
        ultimately show ?thesis using new(3) b(3) by metis
      qed
    qed
  qed
qed


lemma classify_all_lists:
  assumes "classify_all now request payload uuid xs s = (s', None)"
  shows "rs_reached s' = rs_reached s @ map (fst \<circ> snd) (filter (snd \<circ> snd) xs) \<and>
         rs_failed s' = rs_failed s @ map (fst \<circ> snd) (filter (Not \<circ> snd \<circ> snd) xs)"
  using assms
proof (induction now request payload uuid xs s rule: classify_all.induct)
  case (1 now request payload uuid s)
  then show ?case by simp
next
  case (2 now request payload uuid i target ok rest s)
  show ?case
  proof (cases ok)
    case True
    with 2 show ?thesis by simp
  next
    case False
    note nok = this
    define s1 where "s1 = s\<lparr>rs_failed := rs_failed s @ [target]\<rparr>"
    show ?thesis
    proof (cases "req_buffer_if_offline request")
      case False
      with 2 nok show ?thesis by (simp add: Let_def)
    next
      case True
      note buf = this
      show ?thesis
      proof (cases "bufferSignal now (uuid i) (req_signal_type request) (req_source_server request)
                   target payload (req_priority request) DEFAULT_TTL_HOURS (rs_db s1)")
        case (Inl e)
        with "2.prems" nok buf show ?thesis by (simp add: Let_def s1_def)
      next
        case (Inr db1)
        have step: "classify_all now request payload uuid rest
                 (s1\<lparr>rs_db := db1, rs_buffered := rs_buffered s1 @ [target]\<rparr>) = (s', None)"
          using "2.prems" nok buf Inr by (simp add: Let_def s1_def)
        show ?thesis
          using "2.IH"(2) [OF nok s1_def buf Inr step] nok by (simp add: s1_def)
      qed
    qed
  qed
qed

text \<open>What \<open>relaySignal\<close> does, case by case.\<close>

lemma relaySignal_cases:
  assumes "relaySignal regex eng startTime endTime relayId uuid send_ok request db = (db', sent, out)"
  obtains
    (transform_error) rules db1 e where
      "matchRules regex (req_signal_type request) (req_source_server request) db = (rules, db1)"
      "apply_rule_transforms rules (req_payload request) = Inl e"
      "db' = db1" "sent = []" "out = Inl e"
  | (buffer_error) rules db1 payload s e where
      "matchRules regex (req_signal_type request) (req_source_server request) db = (rules, db1)"
      "apply_rule_transforms rules (req_payload request) = Inr payload"
      "classify_all endTime request payload uuid
         (settled request (send_all eng request payload startTime send_ok))
         \<lparr>rs_db = db1, rs_reached = [], rs_failed = [], rs_buffered = []\<rparr> = (s, Some e)"
      "db' = rs_db s" "sent = List.map_filter fst (send_all eng request payload startTime send_ok)"
      "out = Inl e"
  | (record_error) rules db1 payload s e where
      "matchRules regex (req_signal_type request) (req_source_server request) db = (rules, db1)"
      "apply_rule_transforms rules (req_payload request) = Inr payload"
      "classify_all endTime request payload uuid
         (settled request (send_all eng request payload startTime send_ok))
         \<lparr>rs_db = db1, rs_reached = [], rs_failed = [], rs_buffered = []\<rparr> = (s, None)"
      "insertSignalRelay (relay_row relayId request payload endTime (endTime - startTime) s) (rs_db s) = Inl e"
      "db' = rs_db s" "sent = List.map_filter fst (send_all eng request payload startTime send_ok)"
      "out = Inl e"
  | (relayed) rules db1 payload s where
      "matchRules regex (req_signal_type request) (req_source_server request) db = (rules, db1)"
      "apply_rule_transforms rules (req_payload request) = Inr payload"
      "classify_all endTime request payload uuid
         (settled request (send_all eng request payload startTime send_ok))
         \<lparr>rs_db = db1, rs_reached = [], rs_failed = [], rs_buffered = []\<rparr> = (s, None)"
      "insertSignalRelay (relay_row relayId request payload endTime (endTime - startTime) s) (rs_db s) = Inr db'"
      "sent = List.map_filter fst (send_all eng request payload startTime send_ok)"
      "out = Inr (relay_result relayId (endTime - startTime) s)"
  using assms unfolding relaySignal_def Let_def
  by (auto split: prod.splits sum.splits option.splits)


lemma insertSignalRelay_tables:
  assumes "insertSignalRelay row db = Inr db2"
  shows "signal_buffer db2 = signal_buffer db" "signal_relays db2 = signal_relays db @ [row]"
  using assms by (auto simp: insertSignalRelay_def split: if_splits)

lemma relaySignal_rows:
  assumes "relaySignal regex eng startTime endTime relayId uuid send_ok request db = (db', sent, out)"
  shows "\<exists>new. signal_buffer db' = signal_buffer db @ new \<and> (\<forall>b \<in> set new. fresh_row endTime b)"
  using assms
proof (cases rule: relaySignal_cases)
  case (transform_error rules db1 e)
  then show ?thesis using matchRules_tables(1) by fastforce
next
  case (buffer_error rules db1 payload s e)
  then show ?thesis
    using classify_all_rows [OF buffer_error(3)] matchRules_tables(1) [OF buffer_error(1)] by auto
next
  case (record_error rules db1 payload s e)
  then show ?thesis
    using classify_all_rows [OF record_error(3)] matchRules_tables(1) [OF record_error(1)] by auto
next
  case (relayed rules db1 payload s)
  then show ?thesis
    using classify_all_rows [OF relayed(3)] matchRules_tables(1) [OF relayed(1)]
      insertSignalRelay_tables(1) [OF relayed(4)] by auto
qed

lemma sendToTarget_buffer_config:
  "sendToTarget (eng\<lparr>eng_config := map_option (\<lambda>c. c\<lparr>buffer_config := bc\<rparr>) (eng_config eng)\<rparr>)
     target signalType payload priority now ok =
   sendToTarget eng target signalType payload priority now ok"
  by (cases "eng_config eng") (simp_all add: sendToTarget_def)

lemma send_all_buffer_config:
  "send_all (eng\<lparr>eng_config := map_option (\<lambda>c. c\<lparr>buffer_config := bc\<rparr>) (eng_config eng)\<rparr>)
     request payload startTime send_ok =
   send_all eng request payload startTime send_ok"
  unfolding send_all_def sendToTarget_buffer_config ..

lemma relaySignal_buffer_config:
  "relaySignal regex (eng\<lparr>eng_config := map_option (\<lambda>c. c\<lparr>buffer_config := bc\<rparr>) (eng_config eng)\<rparr>)
     startTime endTime relayId uuid send_ok request db =
   relaySignal regex eng startTime endTime relayId uuid send_ok request db"
  unfolding relaySignal_def send_all_buffer_config ..

text \<open>
  Claim C10.  Every row that \<open>relaySignal\<close> adds to \<open>signal_buffer\<close> (the rows are
  appended, whatever the call returns or throws) has \<open>max_retries = 3\<close>,
  \<open>retry_count = 0\<close>, status \<open>pending\<close> and \<open>expires_at = buffered_at + 24 * 3600000\<close>,
  and replacing the \<open>buffer_config\<close> of the engine's configuration by any other changes
  nothing of the call.
\<close>

theorem buffering_path_constants:
  assumes "relaySignal regex eng startTime endTime relayId uuid send_ok request db = (db', sent, out)"
  shows "relaySignal regex (eng\<lparr>eng_config := map_option (\<lambda>c. c\<lparr>buffer_config := bc\<rparr>) (eng_config eng)\<rparr>)
           startTime endTime relayId uuid send_ok request db = (db', sent, out) \<and>
         (\<exists>new. signal_buffer db' = signal_buffer db @ new \<and>
            (\<forall>b \<in> set new. max_retries b = 3 \<and> retry_count b = 0 \<and> status b = Pending \<and>
                             expires_at b = Some (buffered_at b + 24 * 3600000)))"
proof -
  obtain new where "signal_buffer db' = signal_buffer db @ new" "\<forall>b \<in> set new. fresh_row endTime b"
    using relaySignal_rows [OF assms] by blast
  then have "\<exists>new. signal_buffer db' = signal_buffer db @ new \<and>
            (\<forall>b \<in> set new. max_retries b = 3 \<and> retry_count b = 0 \<and> status b = Pending \<and>
                             expires_at b = Some (buffered_at b + 24 * 3600000))"
    by (auto simp: fresh_row_def)
  then show ?thesis using assms by (simp only: relaySignal_buffer_config)
qed


lemma string_array_strings: "string_array (JArr (map JStr xs)) = Some xs"
  by (simp add: list_all_iff comp_def)

lemma stored_targets_stringify:
  "stored_targets (Some (JSON_stringify (JArr (map JStr xs)))) = Some xs"
proof -
  have "wf_json (JArr (map JStr xs))" by auto
  then have "JSON_parse (JSON_stringify (JArr (map JStr xs))) = Some (JArr (map JStr xs))"
    by (rule JSON_parse_stringify)
  then show ?thesis
    unfolding stored_targets_def by (simp add: string_array_strings del: string_array.simps)
qed

lemma length_send_all:
  "length (send_all eng request payload startTime send_ok) = length (req_target_servers request)"
  by (simp add: send_all_def enumerate_eq_zip)

lemma settled_targets:
  assumes "length results = length (req_target_servers request)"
  shows "map (fst \<circ> snd) (settled request results) = req_target_servers request"
proof -
  let ?ts = "req_target_servers request"
  have inner: "map snd (zip [0..<length ?ts] (zip ?ts (map snd results))) = zip ?ts (map snd results)"
    using assms by (intro map_snd_zip) simp
  have outer: "map fst (zip ?ts (map snd results)) = ?ts"
    using assms by (intro map_fst_zip) simp
  have "map (fst \<circ> snd) (settled request results) =
          map fst (map snd (zip [0..<length ?ts] (zip ?ts (map snd results))))"
    by (simp add: settled_def)
  then show ?thesis by (simp only: inner outer)
qed

lemma mset_split_filter:
  "mset (map f (filter P xs)) + mset (map f (filter (Not \<circ> P) xs)) = mset (map f xs)"
  by (induction xs) auto

lemma distinct_split_disjoint:
  assumes "distinct zs" "mset xs + mset ys = mset zs"
  shows "set xs \<inter> set ys = {}"
proof (rule ccontr)
  assume "set xs \<inter> set ys \<noteq> {}"
  then obtain a where a: "a \<in> set xs" "a \<in> set ys" by auto
  have c1: "count (mset xs) a \<ge> 1" using a(1) by (simp add: count_greater_eq_one_iff)
  have c2: "count (mset ys) a \<ge> 1" using a(2) by (simp add: count_greater_eq_one_iff)
  have c3: "count (mset zs) a \<le> 1" using assms(1) by (simp add: distinct_count_atmost_1)
  have "count (mset zs) a = count (mset xs) a + count (mset ys) a"
    by (simp only: assms(2) [symmetric] count_union)
  with c1 c2 c3 show False by linarith
qed

text \<open>
  Claim C9, as amended.  When \<open>relaySignal\<close> returns, it has appended one row to
  \<open>signal_relays\<close>; the lists the row stores are the request's targets and the returned
  \<open>targets_reached\<close> and \<open>targets_failed\<close>; position by position these two partition
  \<open>target_servers\<close>, and they are disjoint when no target is listed twice; \<open>success\<close>
  is 1 exactly when \<open>targets_reached\<close> is not empty and 0 otherwise, and \<open>relayed\<close>
  agrees with it.
\<close>

theorem relay_record_partition:
  assumes "relaySignal regex eng startTime endTime relayId uuid send_ok request db = (db', sent, Inr result)"
  shows "\<exists>row. signal_relays db' = signal_relays db @ [row] \<and>
           stored_targets (Some (rel_target_servers row)) = Some (req_target_servers request) \<and>
           stored_targets (rel_targets_reached row) = Some (targets_reached result) \<and>
           stored_targets (rel_targets_failed row) = Some (targets_failed result) \<and>
           mset (targets_reached result) + mset (targets_failed result) =
             mset (req_target_servers request) \<and>
           (distinct (req_target_servers request) \<longrightarrow>
              set (targets_reached result) \<inter> set (targets_failed result) = {}) \<and>
           (success row = 1 \<longleftrightarrow> targets_reached result \<noteq> []) \<and>
           (success row = 0 \<longleftrightarrow> targets_reached result = []) \<and>
           (relayed result \<longleftrightarrow> success row = 1)"
  using assms
proof (cases rule: relaySignal_cases)
  case (relayed rules db1 payload s)
  define row where "row = relay_row relayId request payload endTime (endTime - startTime) s"
  define xs where "xs = settled request (send_all eng request payload startTime send_ok)"
  have res: "result = relay_result relayId (endTime - startTime) s" using relayed(6) by simp
  have lists: "rs_reached s = map (fst \<circ> snd) (filter (snd \<circ> snd) xs)"
    "rs_failed s = map (fst \<circ> snd) (filter (Not \<circ> snd \<circ> snd) xs)"
    using classify_all_lists [OF relayed(3)] by (simp_all add: xs_def)
  have targets: "map (fst \<circ> snd) xs = req_target_servers request"
    unfolding xs_def by (rule settled_targets) (rule length_send_all)
  have part: "mset (rs_reached s) + mset (rs_failed s) = mset (req_target_servers request)"
    by (simp only: lists targets [symmetric] mset_split_filter comp_assoc)
  have same: "signal_relays (rs_db s) = signal_relays db"
    using classify_all_rows [OF relayed(3)] matchRules_tables(2) [OF relayed(1)] by auto
  have ins: "signal_relays db' = signal_relays db @ [row]"
    using insertSignalRelay_tables(2) [OF relayed(4)] same by (simp add: row_def)
  have st: "stored_targets (Some (rel_target_servers row)) = Some (req_target_servers request)"
    "stored_targets (rel_targets_reached row) = Some (rs_reached s)"
    "stored_targets (rel_targets_failed row) = Some (rs_failed s)"
    by (simp_all only: row_def relay_row_def DbSignalRelay.simps stored_targets_stringify)
  have succ: "success row = (if rs_reached s \<noteq> [] then 1 else 0)"
    by (simp add: row_def relay_row_def)
  have disj: "distinct (req_target_servers request) \<longrightarrow> set (rs_reached s) \<inter> set (rs_failed s) = {}"
    using distinct_split_disjoint [OF _ part] by blast
  have fields: "targets_reached result = rs_reached s" "targets_failed result = rs_failed s"
    "relayed result = (rs_reached s \<noteq> [])"
    by (simp_all add: res relay_result_def)
  show ?thesis
    unfolding fields using ins st part disj succ by (intro exI [of _ row]) simp
qed simp_all







lemma example_relay_result:
  "snd (snd example_relay) =
     Inr \<lparr>relay_id = ''r1'', relayed = True, targets_reached = [''A''],
          targets_failed = [''B''], targets_buffered = [''B''], latency_ms = 5\<rparr>"
  by code_simp

text \<open>
  The theorem at the example relay, where target \<open>B\<close> has no port and is buffered, under
  a configuration whose \<open>buffer_config\<close> asks for a TTL of 48 hours and no retries.
\<close>

theorem buffering_path_constants_witness:
  "relaySignal any_regex
     (initRelayEngine (example_config\<lparr>buffer_config := \<lparr>max_size = 1, ttl_hours = 48, retry_intervals_ms = []\<rparr>\<rparr>))
     1700000000000 1700000000005 ''r1'' example_uuid (\<lambda>i. True) example_request empty_db =
     example_relay \<and>
   map (\<lambda>b. (target_server b, max_retries b, retry_count b, status b, buffered_at b, expires_at b))
     (signal_buffer (fst example_relay)) =
     [(''B'', 3, 0, Pending, 1700000000005, Some (1700000000005 + 24 * 3600000))] \<and>
   (\<exists>new. signal_buffer (fst example_relay) = signal_buffer empty_db @ new \<and>
      (\<forall>b \<in> set new. max_retries b = 3 \<and> retry_count b = 0 \<and> status b = Pending \<and>
                       expires_at b = Some (buffered_at b + 24 * 3600000)))"
proof -
  have run: "relaySignal any_regex (initRelayEngine example_config) 1700000000000 1700000000005 ''r1''
       example_uuid (\<lambda>i. True) example_request empty_db =
     (fst example_relay, fst (snd example_relay), snd (snd example_relay))"
    by (simp add: example_relay_def)
  have rows: "map (\<lambda>b. (target_server b, max_retries b, retry_count b, status b, buffered_at b, expires_at b))
     (signal_buffer (fst example_relay)) =
     [(''B'', 3, 0, Pending, 1700000000005, Some (1700000000005 + 24 * 3600000))]"
    by code_simp
  show ?thesis
    using buffering_path_constants [OF run, of "\<lparr>max_size = 1, ttl_hours = 48, retry_intervals_ms = []\<rparr>"] rows
    by (simp add: initRelayEngine_def)
qed

text \<open>The theorem at the example relay: \<open>A\<close> is reached, \<open>B\<close> has failed.\<close>

theorem relay_record_partition_witness:
  "\<exists>row. signal_relays (fst example_relay) = signal_relays empty_db @ [row] \<and>
     stored_targets (Some (rel_target_servers row)) = Some [''A'', ''B''] \<and>
     stored_targets (rel_targets_reached row) = Some [''A''] \<and>
     stored_targets (rel_targets_failed row) = Some [''B''] \<and>
     success row = 1"
proof -
  have run: "relaySignal any_regex (initRelayEngine example_config) 1700000000000 1700000000005 ''r1''
       example_uuid (\<lambda>i. True) example_request empty_db =
     (fst example_relay, fst (snd example_relay),
      Inr \<lparr>relay_id = ''r1'', relayed = True, targets_reached = [''A''],
          targets_failed = [''B''], targets_buffered = [''B''], latency_ms = 5\<rparr>)"
    using example_relay_result by (simp add: example_relay_def prod_eq_iff)
  have d: "distinct (req_target_servers example_request)" by (simp add: example_request_def)
  show ?thesis
    using relay_record_partition [OF run] d by (auto simp: example_request_def)
qed

text \<open>
  Claim C9 as stated fails when a target is listed twice and the environment answers the
  two sends differently: the target is reached and failed.
\<close>

theorem relay_record_counterexample:
  "snd (snd (relaySignal any_regex (initRelayEngine example_config) 1700000000000 1700000000005 ''r2''
       example_uuid (\<lambda>i. i = 0)
       (example_request\<lparr>req_target_servers := [''A'', ''A''], req_buffer_if_offline := False\<rparr>)
       empty_db)) =
     Inr \<lparr>relay_id = ''r2'', relayed = True, targets_reached = [''A''],
          targets_failed = [''A''], targets_buffered = [], latency_ms = 5\<rparr>"
  by code_simp



section \<open>The tumbler\<close>

text \<open>
  For a message whose timestamp is a number, \<open>validateMessage\<close> accepts exactly when
  the signal type passes the whitelist and the message is neither older than five
  minutes nor more than one minute ahead; neither the sender nor the peer whitelist
  has any influence.
\<close>

lemma validateMessage_numeric:
  assumes "msg_timestamp message = Num ts"
  shows "validateMessage config now message \<longleftrightarrow>
           (allowedSignals config = [] \<or> msg_signalType message \<in> set (allowedSignals config)) \<and>
           \<bar>now - ts * 1000\<bar> \<le> 300000 \<and> ts * 1000 - now \<le> 60000"
  using assms by (auto simp: validateMessage_def Let_def)

lemma validateMessage_sender:
  "validateMessage (config\<lparr>allowedPeers := ps\<rparr>) now (message\<lparr>msg_payload := p\<rparr>) =
   validateMessage config now message"
  by (simp add: validateMessage_def)

text \<open>
  Claim C6 at a message whose timestamp is \<open>NaN\<close>, as \<open>decodeMessage\<close> returns for the
  datagram \<open>PING:x:{}:abc\<close>: both comparisons of the freshness check are false, and the
  message is accepted although it is not within five minutes of the clock.
\<close>

theorem validateMessage_NaN_accepted:
  "validateMessage \<lparr>allowedPeers = [''alpha''], allowedSignals = [0x04, 0x50, 0xF1]\<rparr> 1700000000000
     \<lparr>msg_signalType = 0xF1, msg_version = 0x0100, msg_timestamp = NaN,
      msg_payload = JObj [(''sender'', JStr ''x'')]\<rparr> = True"
  by (simp add: validateMessage_def)

section \<open>The buffer manager\<close>

text \<open>
  Claim C1 at the store with one buffered signal, after four manual retries that the
  delivery callback fails: \<open>retryBufferedSignals\<close> increments \<open>retry_count\<close> without
  looking at \<open>max_retries\<close> and never marks the row failed, so the row is still pending
  with \<open>retry_count = 4\<close> and \<open>max_retries = 3\<close>.
\<close>

theorem retry_count_exceeds_max_retries:
  "map (\<lambda>b. (buf_id b, retry_count b, max_retries b, status b))
     (signal_buffer (retry_once (retry_once (retry_once (retry_once one_pending))))) =
   [(''b1'', 4, 3, Pending)]"
  by code_simp

text \<open>
  Claim C2 at the store with one buffered signal of type 0x50: a \<open>clear\<close> with only a
  \<open>signal_type\<close> filter, or only a \<open>max_age_hours\<close> filter, deletes nothing and
  returns 0.
\<close>

theorem clear_ignores_signal_type_and_age:
  "handleBufferSignals_clear
     \<lparr>in_target_server = None, in_signal_type = Some 0x50, in_max_age_hours = None, in_buffer_ids = None\<rparr>
     one_pending = (0, one_pending) \<and>
   handleBufferSignals_clear
     \<lparr>in_target_server = None, in_signal_type = None, in_max_age_hours = Some 0, in_buffer_ids = None\<rparr>
     one_pending = (0, one_pending) \<and>
   map buf_signal_type (signal_buffer one_pending) = [0x50]"
  by code_simp

section \<open>The stats query\<close>

text \<open>
  Claim C4, as amended.  The \<open>buffer_stats\<close> field of the stats query has three
  entries, the store's live counts of the pending, the delivered and the expired rows.
\<close>

theorem buffer_stats_live_counts:
  "st_buffer_stats (getRelayStatistics since until db) =
     [(''pending'', count_status Pending db),
      (''delivered'', count_status Delivered db),
      (''expired'', count_status Expired db)]"
  by (simp add: getRelayStatistics_def Let_def getBufferStats_def)

text \<open>The theorem at the store whose only row has failed.\<close>

theorem buffer_stats_live_counts_witness:
  "st_buffer_stats (getRelayStatistics 0 None one_failed) =
     [(''pending'', 0), (''delivered'', 0), (''expired'', 0)]"
proof -
  have "count_status Pending one_failed = 0" "count_status Delivered one_failed = 0"
    "count_status Expired one_failed = 0" by code_simp+
  then show ?thesis using buffer_stats_live_counts [of 0 None one_failed] by simp
qed

text \<open>
  Claim C4 as stated fails: at that store the count of failed rows is 1, and
  \<open>buffer_stats\<close> has no entry for it.
\<close>

theorem buffer_stats_counterexample:
  "bs_failed (getBufferStats one_failed) = 1 \<and>
   map_of (st_buffer_stats (getRelayStatistics 0 None one_failed)) ''failed'' = None \<and>
   map fst (st_buffer_stats (getRelayStatistics 0 None one_failed)) = [''pending'', ''delivered'', ''expired'']"
  by code_simp

section \<open>The buffer manager: the selection step of \<open>processBuffer\<close>\<close>







lemma priority_text_inj: "priority_text p = priority_text q \<longleftrightarrow> p = q"
  by (cases p; cases q) simp_all













end
